theory Spec2Isabelle
  imports Complex_Main
begin

section \<open>Wavetable synthesis and feature export of the audio-analysis package\<close>

text \<open>
  The development embeds \<^verbatim>\<open>audio_analysis/wavetable.py\<close> (class
  \<^verbatim>\<open>WavetableSynthesizer\<close>) and \<^verbatim>\<open>audio_analysis/formatter.py\<close> (class
  \<^verbatim>\<open>OutputFormatter\<close>). One-dimensional numpy arrays are lists, Python integers are
  \<^typ>\<open>int\<close>. The arithmetic on samples (the inverse transform, the normalisation, the
  blend) is taken as exact arithmetic over \<^typ>\<open>real\<close> and \<^typ>\<open>complex\<close>. The frame
  positions of \<^verbatim>\<open>np.linspace\<close> are rounded to float64 after every operation, as numpy
  rounds them, because the selected frame depends on the rounding. Every exception the
  Python code or numpy can raise on the modelled path is a value of \<open>error\<close>.
\<close>

subsection \<open>Exceptions\<close>

datatype error =
    ValueError_broadcast            \<comment> \<open>numpy: could not broadcast input array / operands\<close>
  | ValueError_negative_dimensions  \<comment> \<open>numpy: negative dimensions are not allowed\<close>
  | ValueError_fft_points           \<comment> \<open>numpy: invalid number of FFT data points (0)\<close>
  | ValueError_empty_reduction      \<comment> \<open>numpy: zero-size array to reduction operation maximum\<close>
  | ValueError_num_samples          \<comment> \<open>numpy: number of samples must be non-negative\<close>
  | ValueError_unsupported string   \<comment> \<open>formatter: unsupported format\<close>
  | ZeroDivisionError               \<comment> \<open>Python: division by zero\<close>
  | IndexError                      \<comment> \<open>numpy: index out of bounds\<close>
  | NonFinite                       \<comment> \<open>not an exception: an array holding NaN or Inf entries\<close>

subsection \<open>The numpy operations used by the synthesizer\<close>

text \<open>\<^verbatim>\<open>xs[:k]\<close> for a Python integer \<open>k\<close>: a negative bound counts from the end.\<close>

definition py_slice_to :: "'a list \<Rightarrow> int \<Rightarrow> 'a list" where
  "py_slice_to xs k =
     (if k < 0 then take (nat (int (length xs) + k)) xs else take (nat k) xs)"

text \<open>\<^verbatim>\<open>xs[lo:hi]\<close> for non-negative bounds, clipped to the array as Python does.\<close>

definition py_slice :: "'a list \<Rightarrow> nat \<Rightarrow> nat \<Rightarrow> 'a list" where
  "py_slice xs lo hi = drop lo (take hi xs)"

text \<open>\<^verbatim>\<open>np.zeros(n, dtype=complex)\<close>.\<close>

definition np_zeros :: "int \<Rightarrow> error + complex list" where
  "np_zeros n = (if n < 0 then Inl ValueError_negative_dimensions
                 else Inr (replicate (nat n) 0))"

text \<open>
  \<^verbatim>\<open>xs[lo:hi] = src\<close> on a one-dimensional array: the slice is clipped to the array,
  a source of the same length is copied, a source of length one is broadcast over the
  slice, and every other source length raises.
\<close>

definition assign_slice :: "'a list \<Rightarrow> nat \<Rightarrow> nat \<Rightarrow> 'a list \<Rightarrow> error + 'a list" where
  "assign_slice xs lo hi src =
     (let lo' = min lo (length xs);
          hi' = max lo' (min hi (length xs));
          tlen = hi' - lo'
      in if length src = tlen then Inr (take lo' xs @ src @ drop hi' xs)
         else if length src = 1 then Inr (take lo' xs @ replicate tlen (hd src) @ drop hi' xs)
         else Inl ValueError_broadcast)"

text \<open>
  \<^verbatim>\<open>np.fft.ifft(a)\<close>, by its documented definition: entry \<open>m\<close> is
  \<open>(1/n) \<Sum>k<n. a[k] * exp(2\<pi>i m k / n)\<close>; an empty array raises.
\<close>

definition np_fft_ifft :: "complex list \<Rightarrow> error + complex list" where
  "np_fft_ifft a =
     (let n = length a
      in if n = 0 then Inl ValueError_fft_points
         else Inr (map (\<lambda>m. (\<Sum>k\<leftarrow>[0..<n]. a ! k * cis (2 * pi * real m * real k / real n))
                               / of_nat n) [0..<n]))"

text \<open>\<^verbatim>\<open>np.max(xs)\<close>: raises on an empty array.\<close>

fun np_max :: "real list \<Rightarrow> error + real" where
  "np_max [] = Inl ValueError_empty_reduction"
| "np_max (x # xs) = Inr (fold max xs x)"

text \<open>
  \<^verbatim>\<open>xs / m\<close> for an array and a scalar. numpy does not raise on a zero divisor: it
  fills the result with NaN and Inf, which no list of reals can hold, so that outcome is
  the value \<open>Inl NonFinite\<close>.
\<close>

definition np_divide :: "real list \<Rightarrow> real \<Rightarrow> error + real list" where
  "np_divide xs m = (if m = 0 then Inl NonFinite else Inr (map (\<lambda>x. x / m) xs))"

subsection \<open>\<^verbatim>\<open>create_wavetable_from_spectrum\<close>\<close>

text \<open>Sequencing of steps that may raise: the first exception ends the call.\<close>

definition ebind :: "error + 'a \<Rightarrow> ('a \<Rightarrow> error + 'b) \<Rightarrow> error + 'b" where
  "ebind m f = (case m of Inl e \<Rightarrow> Inl e | Inr x \<Rightarrow> f x)"

text \<open>
  Lines 37--38: \<^verbatim>\<open>if len(spectrum) > wavetable_size // 2:
  spectrum = spectrum[:wavetable_size // 2]\<close>.
\<close>

definition truncate_spectrum :: "real list \<Rightarrow> int \<Rightarrow> real list" where
  "truncate_spectrum spectrum wavetable_size =
     (if int (length spectrum) > wavetable_size div 2
      then py_slice_to spectrum (wavetable_size div 2) else spectrum)"

text \<open>
  Lines 41--42: \<^verbatim>\<open>complex_spectrum = np.zeros(wavetable_size, dtype=complex);
  complex_spectrum[:len(spectrum)] = spectrum\<close>.
\<close>

definition zero_phase_spectrum :: "real list \<Rightarrow> int \<Rightarrow> error + complex list" where
  "zero_phase_spectrum spectrum wavetable_size =
     ebind (np_zeros wavetable_size)
       (\<lambda>complex_spectrum.
          assign_slice complex_spectrum 0 (length spectrum) (map complex_of_real spectrum))"

text \<open>
  Lines 45--46: \<^verbatim>\<open>if wavetable_size > 1: complex_spectrum[wavetable_size//2+1:] =
  np.conj(complex_spectrum[1:wavetable_size//2][::-1])\<close>.
\<close>

definition mirror_spectrum :: "complex list \<Rightarrow> int \<Rightarrow> error + complex list" where
  "mirror_spectrum complex_spectrum wavetable_size =
     (if wavetable_size > 1
      then assign_slice complex_spectrum
             (nat (wavetable_size div 2 + 1)) (length complex_spectrum)
             (map cnj (rev (py_slice complex_spectrum 1 (nat (wavetable_size div 2)))))
      else Inr complex_spectrum)"

text \<open>
  Lines 52--53: \<^verbatim>\<open>if np.max(np.abs(wavetable)) > 0:
  wavetable = wavetable / np.max(np.abs(wavetable))\<close>.
\<close>

definition normalize_peak :: "real list \<Rightarrow> error + real list" where
  "normalize_peak wavetable =
     ebind (np_max (map abs wavetable))
       (\<lambda>peak. if peak > 0 then np_divide wavetable peak else Inr wavetable)"

definition create_wavetable_from_spectrum :: "real list \<Rightarrow> int \<Rightarrow> error + real list" where
  "create_wavetable_from_spectrum spectrum wavetable_size =
     ebind (zero_phase_spectrum (truncate_spectrum spectrum wavetable_size) wavetable_size)
       (\<lambda>complex_spectrum0.
     ebind (mirror_spectrum complex_spectrum0 wavetable_size)
       (\<lambda>complex_spectrum.
     ebind (np_fft_ifft complex_spectrum)
       (\<lambda>t. normalize_peak (map Re t))))"

subsection \<open>\<^verbatim>\<open>create_wavetable_stack\<close>\<close>

text \<open>
  numpy computes the frame positions in float64. \<open>fl64\<close> rounds a real number to the
  nearest number with a 53-bit significand, ties to the even significand, as every
  float64 operation rounds its exact result. The exponent range is not limited: overflow
  and subnormal numbers, which the positions of a frame sampler never reach, are outside
  the model.
\<close>

definition round_half_even :: "real \<Rightarrow> int" where
  "round_half_even x =
     (let f = \<lfloor>x\<rfloor>; r = x - of_int f
      in if r < 1 / 2 then f else if 1 / 2 < r then f + 1
         else if even f then f else f + 1)"

definition fl64 :: "real \<Rightarrow> real" where
  "fl64 x =
     (if x = 0 then 0
      else let q = 2 powr of_int (\<lfloor>log 2 \<bar>x\<bar>\<rfloor> - 52)
           in of_int (round_half_even (x / q)) * q)"

text \<open>
  \<^verbatim>\<open>np.linspace(start, stop, num, dtype=int)\<close> for integer end points, following numpy's
  implementation, in float64: the end points are converted to floats,
  \<open>delta = stop - start\<close>, \<open>step = delta / (num - 1)\<close>, the positions are
  \<open>arange(num) * step + start\<close> (or \<open>arange(num) / (num - 1) * delta + start\<close> when the step
  is zero), the last one is overwritten by \<open>stop\<close> when \<open>num > 1\<close>, and each is then rounded
  down (\<^verbatim>\<open>floor\<close>) and cast to an integer. With a single sample the step is undefined
  and the only position is \<open>0 * delta + start\<close>. \<open>dv\<close> is numpy's local \<^verbatim>\<open>div\<close>.
\<close>

definition np_linspace_int :: "int \<Rightarrow> int \<Rightarrow> int \<Rightarrow> error + int list" where
  "np_linspace_int start stop num =
     (if num < 0 then Inl ValueError_num_samples
      else
        let startf = fl64 (real_of_int start);
            stopf = fl64 (real_of_int stop);
            dv = num - 1;
            delta = fl64 (stopf - startf);
            y = map (\<lambda>i. fl64 ((if dv > 0
                                  then (let step = fl64 (delta / fl64 (real_of_int dv))
                                        in if step = 0
                                           then fl64 (fl64 (fl64 (real i) / fl64 (real_of_int dv))
                                                        * delta)
                                           else fl64 (fl64 (real i) * step))
                                  else fl64 (fl64 (real i) * delta))
                                 + startf))
                  [0..<nat num];
            y' = (if num > 1 then y[nat num - 1 := stopf] else y)
        in Inr (map floor y'))"

text \<open>
  Line 76: \<^verbatim>\<open>frame_indices = np.linspace(0, num_frames - 1, num_tables, dtype=int)\<close>.
\<close>

definition frame_indices :: "int \<Rightarrow> int \<Rightarrow> error + int list" where
  "frame_indices num_frames num_tables = np_linspace_int 0 (num_frames - 1) num_tables"

text \<open>
  A two-dimensional float array: its shape and its rows. It is well formed when it
  has \<open>shape0\<close> rows of \<open>shape1\<close> entries each.
\<close>

record matrix =
  shape0 :: nat
  shape1 :: nat
  rows :: "real list list"

definition wf_matrix :: "matrix \<Rightarrow> bool" where
  "wf_matrix m = (length (rows m) = shape0 m \<and> list_all (\<lambda>r. length r = shape1 m) (rows m))"

text \<open>\<^verbatim>\<open>m[:, j]\<close>: a negative index counts from the last column, an index out of
  range raises.\<close>

definition column :: "matrix \<Rightarrow> int \<Rightarrow> error + real list" where
  "column m j =
     (let c = int (shape1 m); j' = (if j < 0 then j + c else j)
      in if 0 \<le> j' \<and> j' < c then Inr (map (\<lambda>r. r ! nat j') (rows m)) else Inl IndexError)"

text \<open>\<^verbatim>\<open>np.zeros((a, b))\<close>.\<close>

definition np_zeros2 :: "int \<Rightarrow> int \<Rightarrow> error + real list list" where
  "np_zeros2 a b = (if a < 0 \<or> b < 0 then Inl ValueError_negative_dimensions
                    else Inr (replicate (nat a) (replicate (nat b) 0)))"

text \<open>
  \<^verbatim>\<open>m[i] = row\<close> on a two-dimensional array: a row of the array's width is copied,
  a row of length one is broadcast, every other length raises.
\<close>

definition assign_row :: "real list list \<Rightarrow> nat \<Rightarrow> real list \<Rightarrow> error + real list list" where
  "assign_row m i row =
     (if length m \<le> i then Inl IndexError
      else let width = length (m ! i)
           in if length row = width then Inr (m[i := row])
              else if length row = 1 then Inr (m[i := replicate width (hd row)])
              else Inl ValueError_broadcast)"

text \<open>The loop of lines 80--82 over \<^verbatim>\<open>enumerate(frame_indices)\<close>.\<close>

fun stack_loop ::
  "matrix \<Rightarrow> int \<Rightarrow> (nat \<times> int) list \<Rightarrow> real list list \<Rightarrow> error + real list list" where
  "stack_loop stft_matrix wavetable_size [] wavetables = Inr wavetables"
| "stack_loop stft_matrix wavetable_size ((i, frame_idx) # rest) wavetables =
     ebind (column stft_matrix frame_idx)
       (\<lambda>spectrum.
     ebind (create_wavetable_from_spectrum spectrum wavetable_size)
       (\<lambda>wavetable.
     ebind (assign_row wavetables i wavetable)
       (\<lambda>wavetables'. stack_loop stft_matrix wavetable_size rest wavetables')))"

definition create_wavetable_stack :: "matrix \<Rightarrow> int \<Rightarrow> int \<Rightarrow> error + real list list" where
  "create_wavetable_stack stft_matrix num_tables wavetable_size =
     (let num_frames = int (shape1 stft_matrix)
      in ebind (frame_indices num_frames num_tables)
           (\<lambda>idx.
         ebind (np_zeros2 num_tables wavetable_size)
           (\<lambda>wavetables.
              stack_loop stft_matrix wavetable_size (zip [0..<length idx] idx) wavetables)))"


subsection \<open>\<^verbatim>\<open>morph_wavetables\<close>\<close>

text \<open>Python's \<^verbatim>\<open>a / b\<close> on integers.\<close>

definition py_truediv :: "int \<Rightarrow> int \<Rightarrow> error + real" where
  "py_truediv a b = (if b = 0 then Inl ZeroDivisionError
                     else Inr (real_of_int a / real_of_int b))"

text \<open>
  \<^verbatim>\<open>xs + ys\<close> on one-dimensional arrays: equal lengths add elementwise, an operand of
  length one is broadcast over the other, everything else raises.
\<close>

definition np_add :: "real list \<Rightarrow> real list \<Rightarrow> error + real list" where
  "np_add xs ys =
     (if length xs = length ys then Inr (map2 (+) xs ys)
      else if length xs = 1 then Inr (map (\<lambda>y. hd xs + y) ys)
      else if length ys = 1 then Inr (map (\<lambda>x. x + hd ys) xs)
      else Inl ValueError_broadcast)"

text \<open>The loop of lines 199--201 over \<^verbatim>\<open>range(num_steps)\<close>.\<close>

fun morph_loop ::
  "real list \<Rightarrow> real list \<Rightarrow> int \<Rightarrow> nat list \<Rightarrow> real list list \<Rightarrow> error + real list list" where
  "morph_loop wavetable1 wavetable2 num_steps [] morphed = Inr morphed"
| "morph_loop wavetable1 wavetable2 num_steps (i # rest) morphed =
     ebind (py_truediv (int i) (num_steps - 1))
       (\<lambda>alpha.
     ebind (np_add (map (\<lambda>x. (1 - alpha) * x) wavetable1) (map (\<lambda>x. alpha * x) wavetable2))
       (\<lambda>row.
     ebind (assign_row morphed i row)
       (\<lambda>morphed'. morph_loop wavetable1 wavetable2 num_steps rest morphed')))"

definition morph_wavetables :: "real list \<Rightarrow> real list \<Rightarrow> int \<Rightarrow> error + real list list" where
  "morph_wavetables wavetable1 wavetable2 num_steps =
     ebind (np_zeros2 num_steps (int (length wavetable1)))
       (\<lambda>morphed. morph_loop wavetable1 wavetable2 num_steps [0..<nat num_steps] morphed)"

text \<open>The blend of the specification: \<open>(1 - alpha) * A + alpha * B\<close>, elementwise.\<close>

definition blend :: "real \<Rightarrow> real list \<Rightarrow> real list \<Rightarrow> real list" where
  "blend alpha A B = map2 (\<lambda>a b. (1 - alpha) * a + alpha * b) A B"

subsection \<open>Feature values and files\<close>

text \<open>
  The values found in a feature dictionary, by the classes the formatter tests with
  \<^verbatim>\<open>isinstance\<close>. A dictionary keeps its items in insertion order. A numpy array is its
  shape and its entries in row-major order. \<^verbatim>\<open>bool\<close> is a subclass of \<^verbatim>\<open>int\<close> and
  \<^verbatim>\<open>np.float64\<close> a subclass of \<^verbatim>\<open>float\<close>; the other numpy scalars
  (\<^verbatim>\<open>np.integer\<close>, \<^verbatim>\<open>np.float32\<close>) are neither.
\<close>

datatype pyval =
    PDict "(string \<times> pyval) list"
  | PNdarray "nat list" "real list"
  | PList "pyval list"
  | PTuple "pyval list"
  | PInt int
  | PBool bool
  | PFloat real
  | PNpFloat64 real
  | PNpFloat32 real
  | PNpInteger int
  | PStr string
  | PNone

text \<open>An entry handed to \<^verbatim>\<open>np.savez_compressed\<close>, by the way it was built.\<close>

datatype npz_entry =
    AsIs "nat list" "real list"   \<comment> \<open>the array itself\<close>
  | OfSequence "pyval list"       \<comment> \<open>\<^verbatim>\<open>np.array(value)\<close>\<close>
  | OfScalar pyval                \<comment> \<open>\<^verbatim>\<open>np.array([value])\<close>\<close>

text \<open>A value written into the second column of the CSV file.\<close>

datatype csv_cell =
    Joined "real list"    \<comment> \<open>\<^verbatim>\<open>','.join(map(str, v.tolist()))\<close>\<close>
  | ShapeOf "nat list"    \<comment> \<open>\<^verbatim>\<open>str(v.shape)\<close>\<close>
  | MeanOf "real list"    \<comment> \<open>\<^verbatim>\<open>float(np.mean(v))\<close>\<close>
  | StdOf "real list"     \<comment> \<open>\<^verbatim>\<open>float(np.std(v))\<close>\<close>
  | Plain pyval

text \<open>
  What a file holds, by the library call that wrote it: the encodings themselves
  (\<^verbatim>\<open>json.dump\<close>, \<^verbatim>\<open>csv.writer\<close>, \<^verbatim>\<open>np.savez_compressed\<close>, the text layout of
  \<^verbatim>\<open>format_value\<close>, \<^verbatim>\<open>soundfile.write\<close>) are not modelled, and neither are failures of
  the operating system.
\<close>

datatype file_content =
    JsonFile pyval
  | CsvFile "(string \<times> csv_cell) list"
  | NpzFile "(string \<times> npz_entry) list"
  | TxtFile pyval
  | AudioFile "real list" int string

type_synonym filesystem = "string \<Rightarrow> file_content option"

text \<open>\<^verbatim>\<open>d[k] = v\<close> on a Python dictionary: a known key keeps its place.\<close>

fun dict_set :: "(string \<times> 'v) list \<Rightarrow> string \<Rightarrow> 'v \<Rightarrow> (string \<times> 'v) list" where
  "dict_set [] k v = [(k, v)]"
| "dict_set ((k', v') # d) k v = (if k' = k then (k, v) # d else (k', v') # dict_set d k v)"

subsection \<open>\<^verbatim>\<open>save_wavetable\<close>\<close>

text \<open>The argument of \<^verbatim>\<open>save_wavetable\<close>: a one- or a two-dimensional array.\<close>

datatype wavetable_array = Array1 "real list" | Array2 "real list list"

record synthesizer =
  sr :: int

text \<open>\<^verbatim>\<open>wavetable.flatten()\<close>: the entries in row-major order.\<close>

fun flatten :: "wavetable_array \<Rightarrow> real list" where
  "flatten (Array1 w) = w"
| "flatten (Array2 ws) = concat ws"

definition save_wavetable ::
  "synthesizer \<Rightarrow> wavetable_array \<Rightarrow> string \<Rightarrow> string \<Rightarrow> filesystem
     \<Rightarrow> (error + unit) \<times> filesystem" where
  "save_wavetable self wavetable output_path format fs =
     (let wavetable2 = (case wavetable of Array1 w \<Rightarrow> Array2 [w] | Array2 ws \<Rightarrow> Array2 ws);
          flattened = flatten wavetable2
      in case ebind (np_max (map abs flattened))
                (\<lambda>peak. if peak > 0
                         then ebind (np_divide flattened peak)
                                (\<lambda>q. Inr (map (\<lambda>x. x * (9 / 10)) q))
                         else Inr flattened) of
           Inl e \<Rightarrow> (Inl e, fs)
         | Inr scaled \<Rightarrow>
             (Inr (), fs(output_path \<mapsto> AudioFile scaled (sr self) format)))"

subsection \<open>\<^verbatim>\<open>OutputFormatter\<close>\<close>

text \<open>\<^verbatim>\<open>obj.tolist()\<close>: nested lists along the shape; a zero-dimensional array gives its
  single entry.\<close>

fun tolist :: "nat list \<Rightarrow> real list \<Rightarrow> pyval" where
  "tolist [] xs = PFloat (hd xs)"
| "tolist (d # shape) xs =
     PList (map (\<lambda>i. tolist shape (take (prod_list shape) (drop (i * prod_list shape) xs)))
              [0..<d])"

fun convert_numpy_types :: "pyval \<Rightarrow> pyval" where
  "convert_numpy_types (PNpInteger i) = PInt i"
| "convert_numpy_types (PNpFloat64 x) = PFloat x"
| "convert_numpy_types (PNpFloat32 x) = PFloat x"
| "convert_numpy_types (PNdarray shape xs) = tolist shape xs"
| "convert_numpy_types (PDict items) =
     PDict (map (\<lambda>kv. (fst kv, convert_numpy_types (snd kv))) items)"
| "convert_numpy_types (PList items) = PList (map convert_numpy_types items)"
| "convert_numpy_types (PTuple items) = PList (map convert_numpy_types items)"
| "convert_numpy_types obj = obj"

definition to_json :: "(string \<times> pyval) list \<Rightarrow> string \<Rightarrow> filesystem \<Rightarrow> filesystem" where
  "to_json data output_path fs =
     fs(output_path \<mapsto> JsonFile (convert_numpy_types (PDict data)))"

text \<open>The key of an item below \<open>parent\<close>, joined by \<open>sep\<close>; an empty parent adds nothing.\<close>

definition join_key :: "string \<Rightarrow> string \<Rightarrow> string \<Rightarrow> string" where
  "join_key parent sep k = (if parent \<noteq> [] then parent @ sep @ k else k)"

fun flatten_dict ::
  "(string \<times> pyval) list \<Rightarrow> string \<Rightarrow> (string \<times> csv_cell) list \<Rightarrow> (string \<times> csv_cell) list"
  where
  "flatten_dict [] parent_key flattened = flattened"
| "flatten_dict ((k, PDict d) # rest) parent_key flattened =
     flatten_dict rest parent_key (flatten_dict d (join_key parent_key ''.'' k) flattened)"
| "flatten_dict ((k, PNdarray shape xs) # rest) parent_key flattened =
     flatten_dict rest parent_key
       (let new_key = join_key parent_key ''.'' k
        in if length shape = 1 \<and> hd shape < 100
           then dict_set flattened new_key (Joined xs)
           else dict_set (dict_set (dict_set flattened
                  (new_key @ ''.shape'') (ShapeOf shape))
                  (new_key @ ''.mean'') (MeanOf xs))
                  (new_key @ ''.std'') (StdOf xs))"
| "flatten_dict ((k, v) # rest) parent_key flattened =
     flatten_dict rest parent_key (dict_set flattened (join_key parent_key ''.'' k) (Plain v))"

definition to_csv ::
  "(string \<times> pyval) list \<Rightarrow> string \<Rightarrow> bool \<Rightarrow> filesystem \<Rightarrow> filesystem" where
  "to_csv data output_path flat fs =
     (let flattened = (if flat then flatten_dict data [] []
                       else map (\<lambda>kv. (fst kv, Plain (convert_numpy_types (snd kv)))) data)
      in fs(output_path \<mapsto> CsvFile flattened))"

fun process_dict ::
  "(string \<times> pyval) list \<Rightarrow> string \<Rightarrow> (string \<times> npz_entry) list \<Rightarrow> (string \<times> npz_entry) list"
  where
  "process_dict [] prefix arrays = arrays"
| "process_dict ((key, PDict d) # rest) prefix arrays =
     process_dict rest prefix (process_dict d (join_key prefix ''_'' key) arrays)"
| "process_dict ((key, PNdarray shape xs) # rest) prefix arrays =
     process_dict rest prefix (dict_set arrays (join_key prefix ''_'' key) (AsIs shape xs))"
| "process_dict ((key, PList vs) # rest) prefix arrays =
     process_dict rest prefix (dict_set arrays (join_key prefix ''_'' key) (OfSequence vs))"
| "process_dict ((key, PTuple vs) # rest) prefix arrays =
     process_dict rest prefix (dict_set arrays (join_key prefix ''_'' key) (OfSequence vs))"
| "process_dict ((key, PInt i) # rest) prefix arrays =
     process_dict rest prefix (dict_set arrays (join_key prefix ''_'' key) (OfScalar (PInt i)))"
| "process_dict ((key, PBool b) # rest) prefix arrays =
     process_dict rest prefix (dict_set arrays (join_key prefix ''_'' key) (OfScalar (PBool b)))"
| "process_dict ((key, PFloat x) # rest) prefix arrays =
     process_dict rest prefix (dict_set arrays (join_key prefix ''_'' key) (OfScalar (PFloat x)))"
| "process_dict ((key, PNpFloat64 x) # rest) prefix arrays =
     process_dict rest prefix
       (dict_set arrays (join_key prefix ''_'' key) (OfScalar (PNpFloat64 x)))"
| "process_dict ((key, v) # rest) prefix arrays = process_dict rest prefix arrays"

definition to_npz :: "(string \<times> pyval) list \<Rightarrow> string \<Rightarrow> filesystem \<Rightarrow> filesystem" where
  "to_npz data output_path fs = fs(output_path \<mapsto> NpzFile (process_dict data [] []))"

definition to_txt :: "(string \<times> pyval) list \<Rightarrow> string \<Rightarrow> filesystem \<Rightarrow> filesystem" where
  "to_txt data output_path fs = fs(output_path \<mapsto> TxtFile (PDict data))"

text \<open>\<^verbatim>\<open>s.endswith(suffix)\<close>.\<close>

definition endswith :: "string \<Rightarrow> string \<Rightarrow> bool" where
  "endswith s suffix =
     (length suffix \<le> length s \<and> drop (length s - length suffix) s = suffix)"

text \<open>
  \<^verbatim>\<open>save_features\<close>. The normal form \<^verbatim>\<open>str(Path(output_path))\<close> of the standard
  library is the parameter \<open>path_str\<close>. The result is the raised exception or the returned
  path, together with the file system the call leaves behind.
\<close>

definition save_features ::
  "(string \<Rightarrow> string) \<Rightarrow> (string \<times> pyval) list \<Rightarrow> string \<Rightarrow> string \<Rightarrow> filesystem
     \<Rightarrow> (error + string) \<times> filesystem" where
  "save_features path_str features output_path format fs =
     (let output_path1 = path_str output_path;
          output_path2 = (if \<not> endswith output_path1 (''.'' @ format)
                          then output_path1 @ ''.'' @ format else output_path1)
      in if format = ''json'' then (Inr output_path2, to_json features output_path2 fs)
         else if format = ''csv'' then (Inr output_path2, to_csv features output_path2 True fs)
         else if format = ''npz'' then (Inr output_path2, to_npz features output_path2 fs)
         else if format = ''txt'' then (Inr output_path2, to_txt features output_path2 fs)
         else (Inl (ValueError_unsupported format), fs))"






subsection \<open>Auxiliary notions for the statements\<close>

text \<open>
  The row numpy computes in one pass of the morph loop: the blend when the two tables
  have the same length, and otherwise the first table blended with the single entry of
  the second, broadcast.
\<close>

definition morph_row :: "real list \<Rightarrow> real list \<Rightarrow> real \<Rightarrow> real list" where
  "morph_row w1 w2 alpha =
     (if length w1 = length w2 then blend alpha w1 w2
      else map (\<lambda>x. (1 - alpha) * x + alpha * hd w2) w1)"

text \<open>
  The body of the loop of \<^verbatim>\<open>create_wavetable_stack\<close> for one frame index: the column
  of the matrix, reconstructed.
\<close>

definition frame_wavetable :: "matrix \<Rightarrow> int \<Rightarrow> int \<Rightarrow> error + real list" where
  "frame_wavetable m ws j = ebind (column m j) (\<lambda>spectrum. create_wavetable_from_spectrum spectrum ws)"

text \<open>The samples of the argument of \<^verbatim>\<open>save_wavetable\<close>, table after table.\<close>

definition flat_samples :: "wavetable_array \<Rightarrow> real list" where
  "flat_samples wavetable = (case wavetable of Array1 w \<Rightarrow> w | Array2 ws \<Rightarrow> concat ws)"

section \<open>Properties of the reconstruction\<close>

subsection \<open>The steps of \<^verbatim>\<open>create_wavetable_from_spectrum\<close>\<close>

lemma truncate_spectrum_take:
  "0 \<le> n \<Longrightarrow> truncate_spectrum s n = take (nat (n div 2)) s"
  by (auto simp: truncate_spectrum_def py_slice_to_def)

lemma zero_phase_spectrum_eq:
  "0 \<le> n \<Longrightarrow> length s \<le> nat n \<Longrightarrow>
   zero_phase_spectrum s n = Inr (map complex_of_real s @ replicate (nat n - length s) 0)"
  by (simp add: zero_phase_spectrum_def ebind_def np_zeros_def assign_slice_def Let_def min_def max_def)

lemma mirror_spectrum_even:
  assumes "0 < n" "even n" "length X = nat n"
  shows "mirror_spectrum X n =
     Inr (take (nat (n div 2) + 1) X @ map cnj (rev (drop 1 (take (nat (n div 2)) X))))"
proof -
  from assms(2) obtain k where k: "n = 2 * k" by (elim evenE)
  with assms(1) have kpos: "0 < k" by simp
  define h where "h = nat k"
  have h: "n = 2 * int h" "0 < h" using k kpos by (simp_all add: h_def)
  then show ?thesis using assms(3)
    by (simp add: mirror_spectrum_def assign_slice_def py_slice_def Let_def min_def max_def nat_add_distrib nat_mult_distrib)
qed

lemma sum_list_nth_upt: "(\<Sum>k\<leftarrow>[0..<length a]. a ! k) = sum_list a"
  by (simp add: map_nth)

lemma ifft_first:
  assumes "a \<noteq> []"
  shows "\<exists>t. np_fft_ifft a = Inr t \<and> length t = length a \<and>
     Re (t ! 0) = (\<Sum>z\<leftarrow>a. Re z) / real (length a)"
proof -
  have "(\<Sum>k\<leftarrow>[0..<length a]. a ! k * cis (2 * pi * real 0 * real k / real (length a))) = sum_list a"
    by (simp add: map_nth)
  moreover have "Re (sum_list a) = (\<Sum>z\<leftarrow>a. Re z)"
    by (induction a) simp_all
  ultimately show ?thesis using assms
    by (simp add: np_fft_ifft_def Let_def nth_map_upt)
qed

lemma sum_list_all_zero:
  fixes f :: "'a \<Rightarrow> complex"
  shows "\<forall>x\<in>set xs. f x = 0 \<Longrightarrow> sum_list (map f xs) = 0"
  by (induction xs) simp_all

lemma ifft_zeros:
  assumes "a \<noteq> []" "\<forall>z\<in>set a. z = 0"
  shows "np_fft_ifft a = Inr (replicate (length a) 0)"
proof -
  have nth0: "a ! k = 0" if "k < length a" for k
    using assms(2) that by (simp add: nth_mem)
  have inner: "(\<Sum>k\<leftarrow>[0..<length a]. a ! k * cis (2 * pi * real m * real k / real (length a))) = 0" for m
    by (rule sum_list_all_zero) (simp add: nth0)
  have "map (\<lambda>m. (\<Sum>k\<leftarrow>[0..<length a]. a ! k * cis (2 * pi * real m * real k / real (length a)))
                    / of_nat (length a)) [0..<length a] = map (\<lambda>m. 0) [0..<length a]"
    by (simp only: inner div_0)
  also have "\<dots> = replicate (length a) 0"
    by (simp add: map_replicate_const)
  finally show ?thesis using assms(1)
    by (simp only: np_fft_ifft_def Let_def length_0_conv if_False)
qed

lemma np_max_Max: "xs \<noteq> [] \<Longrightarrow> np_max xs = Inr (Max (set xs))"
proof (cases xs)
  case (Cons a list)
  then show ?thesis using Max.set_eq_fold[of a list] by simp
qed simp

lemma normalize_peak_zero:
  assumes "w \<noteq> []" "\<forall>x\<in>set w. x = 0"
  shows "normalize_peak w = Inr w"
proof -
  have "set w \<subseteq> {0}" using assms(2) by blast
  then have "set w = {} \<or> set w = {0}" by (rule subset_singletonD)
  then have "set w = {0}" using assms(1) by simp
  then have "Max (set (map abs w)) = 0" by simp
  then show ?thesis using assms(1)
    by (simp add: normalize_peak_def ebind_def np_max_Max)
qed

lemma normalize_peak_pos:
  assumes "x \<in> set w" "x \<noteq> 0"
  shows "\<exists>w'. normalize_peak w = Inr w' \<and> length w' = length w \<and> np_max (map abs w') = Inr 1"
proof -
  define p where "p = Max (abs ` set w)"
  have ne: "w \<noteq> []" using assms(1) by auto
  have "\<bar>x\<bar> \<le> p" unfolding p_def using assms(1) by (intro Max_ge) auto
  with assms(2) have ppos: "0 < p" by simp
  have pin: "p \<in> abs ` set w" unfolding p_def using ne by (intro Max_in) auto
  have ple: "y \<le> p" if "y \<in> abs ` set w" for y unfolding p_def using that by (intro Max_ge) auto
  let ?w' = "map (\<lambda>x. x / p) w"
  have norm: "normalize_peak w = Inr ?w'"
    using ne ppos by (simp add: normalize_peak_def ebind_def np_max_Max np_divide_def p_def[symmetric])
  have "Max (set (map abs ?w')) = 1"
  proof (rule Max_eqI)
    show "finite (set (map abs ?w'))" by simp
  next
    fix y assume "y \<in> set (map abs ?w')"
    then obtain z where z: "z \<in> set w" "y = \<bar>z\<bar> / p" using ppos by auto
    then have "\<bar>z\<bar> \<le> p" using ple by auto
    then show "y \<le> 1" using z ppos by simp
  next
    from pin obtain z where "z \<in> set w" "p = \<bar>z\<bar>" by auto
    then have "\<bar>z / p\<bar> = 1" using ppos by simp
    then show "1 \<in> set (map abs ?w')" using \<open>z \<in> set w\<close> by (force simp: image_iff)
  qed
  then have "np_max (map abs ?w') = Inr 1" using ne by (simp add: np_max_Max)
  with norm show ?thesis by simp
qed


lemma member_le_sum_list_real:
  fixes xs :: "real list"
  shows "x \<in> set xs \<Longrightarrow> \<forall>y\<in>set xs. 0 \<le> y \<Longrightarrow> x \<le> sum_list xs"
proof (induction xs)
  case Nil
  then show ?case by simp
next
  case (Cons a xs)
  have nn: "0 \<le> sum_list xs" using Cons.prems(2) by (intro sum_list_nonneg) simp
  show ?case
  proof (cases "x = a")
    case True
    then show ?thesis using nn by simp
  next
    case False
    then have "x \<le> sum_list xs" using Cons by simp
    moreover have "0 \<le> a" using Cons.prems(2) by simp
    ultimately show ?thesis by simp
  qed
qed

lemma built_spectrum:
  fixes spectrum :: "real list"
  assumes "0 < n" "even n"
  defines "s \<equiv> take (nat (n div 2)) spectrum"
  shows "\<exists>X. ebind (zero_phase_spectrum (truncate_spectrum spectrum n) n)
               (\<lambda>X0. mirror_spectrum X0 n) = Inr X \<and>
             length X = nat n \<and>
             complex_of_real ` set s \<subseteq> set X \<and>
             set X \<subseteq> complex_of_real ` set s \<union> {0}"
proof -
  from assms(2) obtain k where k: "n = 2 * k" by (elim evenE)
  with assms(1) have kpos: "0 < k" by simp
  define h where "h = nat k"
  have h: "n = 2 * int h" "0 < h" using k kpos by (simp_all add: h_def)
  have nh: "nat (n div 2) = h" "nat n = 2 * h" using h by simp_all
  have ls: "length s \<le> h" by (simp add: s_def nh)
  define X0 where "X0 = map complex_of_real s @ replicate (nat n - length s) 0"
  have lX0: "length X0 = nat n" using ls nh by (simp add: X0_def)
  have trunc: "truncate_spectrum spectrum n = s"
    using assms(1) by (simp add: truncate_spectrum_take s_def)
  have zp: "zero_phase_spectrum s n = Inr X0"
    unfolding X0_def using assms(1) ls nh by (intro zero_phase_spectrum_eq) simp_all
  define X where "X = take (h + 1) X0 @ map cnj (rev (drop 1 (take h X0)))"
  have mir: "mirror_spectrum X0 n = Inr X"
    unfolding X_def using mirror_spectrum_even[OF assms(1,2) lX0] by (simp add: nh)
  have lX: "length X = nat n" using lX0 nh h(2) by (simp add: X_def)
  have X0set: "set X0 \<subseteq> complex_of_real ` set s \<union> {0}"
    by (auto simp: X0_def)
  have "set X \<subseteq> set X0 \<union> cnj ` set X0"
    unfolding X_def using set_take_subset[of "h + 1" X0] set_take_subset[of h X0]
      set_drop_subset[of 1 "take h X0"] by auto
  also have "\<dots> \<subseteq> complex_of_real ` set s \<union> {0}"
    using X0set by auto
  finally have up: "set X \<subseteq> complex_of_real ` set s \<union> {0}" .
  have "take (h + 1) X0 = map complex_of_real s @ take (h + 1 - length s) (replicate (nat n - length s) 0)"
    using ls by (simp add: X0_def)
  then have low: "complex_of_real ` set s \<subseteq> set X" by (auto simp: X_def)
  show ?thesis using trunc zp mir lX up low by (simp add: ebind_def)
qed

lemma normalize_peak_finite: "normalize_peak w \<noteq> Inl NonFinite"
  by (cases w) (simp_all add: normalize_peak_def ebind_def np_divide_def)

lemma assign_slice_not_NonFinite: "assign_slice xs lo hi src \<noteq> Inl NonFinite"
  by (simp add: assign_slice_def Let_def)

lemma ebind_avoids:
  "m \<noteq> Inl e \<Longrightarrow> (\<And>x. f x \<noteq> Inl e) \<Longrightarrow> ebind m f \<noteq> Inl e"
  by (cases m) (simp_all add: ebind_def)

lemma zero_phase_spectrum_finite: "zero_phase_spectrum s n \<noteq> Inl NonFinite"
  unfolding zero_phase_spectrum_def
  by (rule ebind_avoids) (simp_all add: np_zeros_def assign_slice_not_NonFinite)

lemma mirror_spectrum_finite: "mirror_spectrum X n \<noteq> Inl NonFinite"
  by (simp add: mirror_spectrum_def assign_slice_not_NonFinite)

lemma np_fft_ifft_finite: "np_fft_ifft X \<noteq> Inl NonFinite"
  by (simp add: np_fft_ifft_def Let_def)

lemma create_wavetable_finite: "create_wavetable_from_spectrum spectrum n \<noteq> Inl NonFinite"
  unfolding create_wavetable_from_spectrum_def
  by (intro ebind_avoids zero_phase_spectrum_finite mirror_spectrum_finite
        np_fft_ifft_finite normalize_peak_finite)

lemma assign_slice_zeros:
  assumes "assign_slice xs lo hi src = Inr ys" "\<forall>z\<in>set xs. z = 0" "\<forall>z\<in>set src. z = 0"
  shows "length ys = length xs \<and> (\<forall>z\<in>set ys. z = 0)"
proof (cases "length src = max (min lo (length xs)) (min hi (length xs)) - min lo (length xs)")
  case True
  then have ys: "ys = take (min lo (length xs)) xs @ src @ drop (max (min lo (length xs)) (min hi (length xs))) xs"
    using assms(1) by (simp add: assign_slice_def Let_def)
  have "\<forall>z\<in>set ys. z = 0"
    unfolding ys using assms(2,3) by (auto dest: in_set_takeD in_set_dropD)
  moreover have "length ys = length xs" unfolding ys using True by (simp add: min_def max_def split: if_splits)
  ultimately show ?thesis by simp
next
  case False
  then have one: "length src = 1" using assms(1) by (simp add: assign_slice_def Let_def split: if_splits)
  then have ys: "ys = take (min lo (length xs)) xs @
       replicate (max (min lo (length xs)) (min hi (length xs)) - min lo (length xs)) (hd src) @
       drop (max (min lo (length xs)) (min hi (length xs))) xs"
    using assms(1) False by (simp add: assign_slice_def Let_def)
  have "hd src \<in> set src" using one by (cases src) simp_all
  then have "hd src = 0" using assms(3) by simp
  then have "\<forall>z\<in>set ys. z = 0"
    unfolding ys using assms(2) by (auto dest: in_set_takeD in_set_dropD)
  moreover have "length ys = length xs" unfolding ys by (simp add: min_def max_def split: if_splits)
  ultimately show ?thesis by simp
qed

lemma zero_spectrum_returns_zero:
  fixes spectrum :: "real list"
  assumes "\<forall>x\<in>set spectrum. x = 0" "0 < n"
    and "create_wavetable_from_spectrum spectrum n = Inr w"
  shows "w = replicate (nat n) 0"
proof -
  let ?s = "truncate_spectrum spectrum n"
  have sz: "\<forall>x\<in>set ?s. x = 0"
    using assms(1,2) by (auto simp: truncate_spectrum_take dest: in_set_takeD)
  from assms(3) obtain X0 where X0: "zero_phase_spectrum ?s n = Inr X0"
    by (auto simp: create_wavetable_from_spectrum_def ebind_def split: sum.splits)
  from assms(3) X0 obtain X where X: "mirror_spectrum X0 n = Inr X"
    by (auto simp: create_wavetable_from_spectrum_def ebind_def split: sum.splits)
  from assms(3) X0 X obtain t where t: "np_fft_ifft X = Inr t"
    by (auto simp: create_wavetable_from_spectrum_def ebind_def split: sum.splits)
  from assms(3) X0 X t have w: "normalize_peak (map Re t) = Inr w"
    by (simp add: create_wavetable_from_spectrum_def ebind_def)
  have X0z: "length X0 = nat n \<and> (\<forall>z\<in>set X0. z = 0)"
  proof -
    from X0 have "assign_slice (replicate (nat n) 0) 0 (length ?s) (map complex_of_real ?s) = Inr X0"
      using assms(2) by (simp add: zero_phase_spectrum_def ebind_def np_zeros_def)
    from assign_slice_zeros[OF this] sz show ?thesis by simp
  qed
  have Xz: "length X = nat n \<and> (\<forall>z\<in>set X. z = 0)"
  proof (cases "n > 1")
    case True
    then have "assign_slice X0 (nat (n div 2 + 1)) (length X0)
        (map cnj (rev (py_slice X0 1 (nat (n div 2))))) = Inr X"
      using X by (simp add: mirror_spectrum_def)
    from assign_slice_zeros[OF this] X0z show ?thesis
      by (auto simp: py_slice_def dest!: in_set_dropD in_set_takeD)
  next
    case False
    then show ?thesis using X X0z by (simp add: mirror_spectrum_def)
  qed
  then have Xne: "X \<noteq> []" using assms(2) by auto
  have "t = replicate (nat n) 0" using ifft_zeros[OF Xne] Xz t by simp
  then have mt: "map Re t = replicate (nat n) 0" by simp
  have "normalize_peak (replicate (nat n) 0) = Inr (replicate (nat n) 0)"
    using assms(2) by (intro normalize_peak_zero) auto
  with w mt show ?thesis by simp
qed

lemma even_size_result:
  fixes spectrum :: "real list"
  assumes "\<forall>x\<in>set spectrum. 0 \<le> x" "0 < n" "even n"
  shows "\<exists>w. create_wavetable_from_spectrum spectrum n = Inr w \<and> length w = nat n \<and>
           np_max (map abs w) =
             Inr (if \<exists>x\<in>set (take (nat (n div 2)) spectrum). x \<noteq> 0 then 1 else 0)"
proof -
  let ?s = "take (nat (n div 2)) spectrum"
  from built_spectrum[OF assms(2,3), of spectrum] obtain X where
    X: "ebind (zero_phase_spectrum (truncate_spectrum spectrum n) n)
          (\<lambda>X0. mirror_spectrum X0 n) = Inr X"
    and lX: "length X = nat n"
    and low: "complex_of_real ` set ?s \<subseteq> set X"
    and up: "set X \<subseteq> complex_of_real ` set ?s \<union> {0}"
    by blast
  have Xne: "X \<noteq> []" using lX assms(2) by auto
  from ifft_first[OF Xne] obtain t where
    t: "np_fft_ifft X = Inr t" and lt: "length t = length X"
    and t0: "Re (t ! 0) = (\<Sum>z\<leftarrow>X. Re z) / real (length X)"
    by blast
  have run: "create_wavetable_from_spectrum spectrum n = normalize_peak (map Re t)"
    using X t
    by (auto simp: create_wavetable_from_spectrum_def ebind_def split: sum.splits)
  have snn: "\<forall>x\<in>set ?s. 0 \<le> x" using assms(1) by (auto dest: in_set_takeD)
  show ?thesis
  proof (cases "\<exists>x\<in>set ?s. x \<noteq> 0")
    case True
    then obtain x where x: "x \<in> set ?s" "x \<noteq> 0" by blast
    then have xpos: "0 < x" using snn by force
    have "complex_of_real x \<in> set X" using low x(1) by blast
    then have xin: "x \<in> set (map Re X)" by force
    have nn: "\<forall>y\<in>set (map Re X). 0 \<le> y"
    proof
      fix y assume "y \<in> set (map Re X)"
      then obtain z where z: "z \<in> set X" "y = Re z" by auto
      then have "z \<in> complex_of_real ` set ?s \<union> {0}" using up by blast
      then show "0 \<le> y" using z(2) snn by auto
    qed
    have "x \<le> (\<Sum>z\<leftarrow>X. Re z)"
      using member_le_sum_list_real[OF xin nn] by simp
    then have "0 < (\<Sum>z\<leftarrow>X. Re z)" using xpos by linarith
    then have "0 < Re (t ! 0)" using t0 Xne by simp
    moreover have "Re (t ! 0) \<in> set (map Re t)" using lt Xne by (cases t) auto
    ultimately obtain v where "v \<in> set (map Re t)" "v \<noteq> 0" by force
    from normalize_peak_pos[OF this] lt lX run True show ?thesis by auto
  next
    case False
    then have "\<forall>z\<in>set X. z = 0" using up by auto
    from ifft_zeros[OF Xne this] t have "map Re t = replicate (nat n) 0" using lX by simp
    moreover have "normalize_peak (replicate (nat n) 0) = Inr (replicate (nat n) 0)"
      using assms(2) by (intro normalize_peak_zero) auto
    moreover have "np_max (map abs (replicate (nat n) (0::real))) = Inr 0"
      using assms(2) by (simp add: np_max_Max)
    ultimately show ?thesis using run False by simp
  qed
qed

lemma zero_spectrum_all:
  fixes spectrum :: "real list"
  assumes "\<forall>x\<in>set spectrum. x = 0" "0 < n"
  shows "create_wavetable_from_spectrum spectrum n \<noteq> Inl NonFinite \<and>
         (\<forall>w. create_wavetable_from_spectrum spectrum n = Inr w \<longrightarrow> w = replicate (nat n) 0) \<and>
         (even n \<longrightarrow> create_wavetable_from_spectrum spectrum n = Inr (replicate (nat n) 0))"
proof (intro conjI allI impI)
  show "create_wavetable_from_spectrum spectrum n \<noteq> Inl NonFinite"
    by (rule create_wavetable_finite)
next
  fix w assume "create_wavetable_from_spectrum spectrum n = Inr w"
  then show "w = replicate (nat n) 0" by (rule zero_spectrum_returns_zero[OF assms])
next
  assume "even n"
  have "\<forall>x\<in>set spectrum. 0 \<le> x" using assms(1) by auto
  from even_size_result[OF this assms(2) \<open>even n\<close>] obtain w where
    w: "create_wavetable_from_spectrum spectrum n = Inr w" by blast
  with zero_spectrum_returns_zero[OF assms w]
  show "create_wavetable_from_spectrum spectrum n = Inr (replicate (nat n) 0)" by simp
qed

lemma upt_0_2: "[0..<2] = [0, 1]"
  by (simp add: numeral_2_eq_2)

subsection \<open>Claims on the reconstruction\<close>

text \<open>
  Claim C1, as amended. The spectrum is cut to its first \<open>wavetable_size // 2\<close> bins
  before anything else, so what decides the peak is whether one of those bins is
  non-zero, not whether the whole spectrum is. For a non-negative spectrum and an even
  positive \<open>wavetable_size\<close> the call returns a waveform of exactly \<open>wavetable_size\<close>
  samples. Its peak absolute amplitude is 1 when one of the first \<open>wavetable_size // 2\<close>
  bins is non-zero, and 0 otherwise; so the peak is at most 1 in every case.
\<close>

theorem wavetable_peak_normalized:
  fixes spectrum :: "real list"
  assumes "\<forall>x\<in>set spectrum. 0 \<le> x" and "0 < n" and "even n"
  shows "\<exists>w. create_wavetable_from_spectrum spectrum n = Inr w \<and> length w = nat n \<and>
           np_max (map abs w) =
             Inr (if \<exists>x\<in>set (take (nat (n div 2)) spectrum). x \<noteq> 0 then 1 else 0)"
  using assms by (rule even_size_result)

theorem wavetable_peak_normalized_witness:
  "list_all (\<lambda>x. 0 \<le> x) [1 :: real] \<and> 0 < (2 :: int) \<and> even (2 :: int) \<and>
   ebind (create_wavetable_from_spectrum [1] 2) (\<lambda>w. np_max (map abs w)) = Inr 1"
proof -
  have "\<forall>x\<in>set [1 :: real]. 0 \<le> x" by simp
  from wavetable_peak_normalized[OF this, of 2]
  obtain w where "create_wavetable_from_spectrum [1] 2 = Inr w"
    and "np_max (map abs w) = Inr 1"
    by auto
  then show ?thesis by (simp add: ebind_def)
qed

text \<open>
  Claim C1 as stated fails: the spectrum \<open>[0, 1]\<close> is non-negative and not all-zero and
  \<open>wavetable_size = 2\<close> is even and positive, but only the bin \<open>0\<close> survives the cut, the
  waveform is silent and its peak is 0, not 1.
\<close>

theorem wavetable_peak_counterexample:
  "create_wavetable_from_spectrum [0, 1] 2 = Inr [0, 0] \<and>
   np_max (map abs [0, 0 :: real]) = Inr 0"
  by (simp add: create_wavetable_from_spectrum_def truncate_spectrum_def
        zero_phase_spectrum_def mirror_spectrum_def normalize_peak_def ebind_def
        py_slice_to_def py_slice_def np_zeros_def assign_slice_def np_fft_ifft_def
        np_divide_def Let_def upt_0_2 numeral_2_eq_2)

text \<open>
  Claim C2 fails on the code: with \<open>wavetable_size = 3\<close> the mirror assignment of line 46
  copies the empty slice \<^verbatim>\<open>complex_spectrum[1:1]\<close> into the one-element slice
  \<^verbatim>\<open>complex_spectrum[2:]\<close>, which numpy refuses with a \<^verbatim>\<open>ValueError\<close>. The two slices
  have the same length only for even sizes.
\<close>

theorem odd_wavetable_size_raises:
  "create_wavetable_from_spectrum [1] 3 = Inl ValueError_broadcast"
  by (simp add: create_wavetable_from_spectrum_def truncate_spectrum_def
        zero_phase_spectrum_def mirror_spectrum_def ebind_def
        py_slice_to_def py_slice_def np_zeros_def assign_slice_def Let_def numeral_3_eq_3)

text \<open>
  Claim C3. For an all-zero spectrum and a positive \<open>wavetable_size\<close> the call never
  reaches a division by zero (the outcome \<open>NonFinite\<close>): the peak is 0 and the
  normalisation is skipped. Every waveform it returns is all-zero, and for every even
  size it does return one. (An odd size can stop at the mirror assignment, before any
  arithmetic.)
\<close>

theorem zero_spectrum_zero_wavetable:
  fixes spectrum :: "real list"
  assumes "\<forall>x\<in>set spectrum. x = 0" and "0 < n"
  shows "create_wavetable_from_spectrum spectrum n \<noteq> Inl NonFinite \<and>
         (\<forall>w. create_wavetable_from_spectrum spectrum n = Inr w \<longrightarrow> w = replicate (nat n) 0) \<and>
         (even n \<longrightarrow> create_wavetable_from_spectrum spectrum n = Inr (replicate (nat n) 0))"
  using assms by (rule zero_spectrum_all)

theorem zero_spectrum_zero_wavetable_witness:
  "list_all (\<lambda>x. x = 0) [0, 0, 0 :: real] \<and> 0 < (4 :: int) \<and> even (4 :: int) \<and>
   create_wavetable_from_spectrum [0, 0, 0] 4 = Inr [0, 0, 0, 0]"
proof -
  have zeros: "\<forall>x\<in>set [0, 0, 0 :: real]. x = 0" by simp
  have pos: "0 < (4 :: int)" by simp
  have ev: "even (4 :: int)" by simp
  have rep: "replicate (nat 4) (0 :: real) = [0, 0, 0, 0]" by (simp add: eval_nat_numeral)
  from zero_spectrum_zero_wavetable[OF zeros pos] ev
  have "create_wavetable_from_spectrum [0, 0, 0] 4 = Inr (replicate (nat 4) 0)" by blast
  with rep pos ev show ?thesis by simp
qed

section \<open>Properties of the frame sampler\<close>

subsection \<open>Rounding to float64\<close>

lemma round_half_even_error: "\<bar>of_int (round_half_even x) - x\<bar> \<le> 1 / 2"
proof -
  have "of_int \<lfloor>x\<rfloor> \<le> x" "x < of_int \<lfloor>x\<rfloor> + 1" by linarith+
  then show ?thesis by (auto simp: round_half_even_def Let_def)
qed

lemma round_half_even_of_int: "round_half_even (of_int k) = k"
  by (simp add: round_half_even_def)

lemma fl64_zero: "fl64 0 = 0"
  by (simp add: fl64_def)

lemma binade_bounds:
  assumes "0 < x"
  shows "2 powr of_int \<lfloor>log 2 x\<rfloor> \<le> x" and "x < 2 powr of_int (\<lfloor>log 2 x\<rfloor> + 1)"
proof -
  have x: "2 powr log 2 x = x" using assms by simp
  have "(2::real) powr of_int \<lfloor>log 2 x\<rfloor> \<le> 2 powr log 2 x"
    by (intro powr_mono) simp_all
  then show "2 powr of_int \<lfloor>log 2 x\<rfloor> \<le> x" by (simp only: x)
  have "log 2 x < of_int (\<lfloor>log 2 x\<rfloor> + 1)" by linarith
  then have "(2::real) powr log 2 x < 2 powr of_int (\<lfloor>log 2 x\<rfloor> + 1)"
    by (intro powr_less_mono) simp_all
  then show "x < 2 powr of_int (\<lfloor>log 2 x\<rfloor> + 1)" by (simp only: x)
qed

lemma binade_unique:
  assumes "0 < x" "2 powr of_int e \<le> x" "x < 2 powr of_int (e + 1)"
  shows "\<lfloor>log 2 x\<rfloor> = e"
proof -
  have "of_int e \<le> log 2 x" using assms(1,2) le_log_iff[of 2 x "of_int e"] by simp
  moreover have "log 2 x < of_int (e + 1)"
    using assms(1,3) log_less_iff[of 2 x "of_int (e + 1)"] by simp
  ultimately show ?thesis by linarith
qed

lemma powr2_of_int:
  "(2::real) powr of_int e = (if 0 \<le> e then 2 ^ nat e else 1 / 2 ^ nat (- e))"
proof (cases "0 \<le> e")
  case True
  then have "(of_int e :: real) = real (nat e)" by simp
  then have "(2::real) powr of_int e = 2 powr real (nat e)" by (simp only:)
  also have "\<dots> = 2 ^ nat e" by (rule powr_realpow) simp
  finally show ?thesis using True by simp
next
  case False
  then have "(of_int e :: real) = - real (nat (- e))" by simp
  then have "(2::real) powr of_int e = 2 powr (- real (nat (- e)))" by (simp only:)
  also have "\<dots> = 1 / 2 powr real (nat (- e))" by (simp only: powr_minus_divide)
  also have "(2::real) powr real (nat (- e)) = 2 ^ nat (- e)" by (rule powr_realpow) simp
  finally show ?thesis using False by simp
qed

lemma fl64_relative_error:
  assumes "0 < x"
  shows "\<bar>fl64 x - x\<bar> \<le> x / 2 ^ 53"
proof -
  define e where "e = \<lfloor>log 2 x\<rfloor>"
  define q :: real where "q = 2 powr of_int (e - 52)"
  have qpos: "0 < q" by (simp add: q_def)
  have fl: "fl64 x = of_int (round_half_even (x / q)) * q"
    using assms by (simp add: fl64_def Let_def q_def e_def)
  have "fl64 x - x = (of_int (round_half_even (x / q)) - x / q) * q"
    using qpos by (simp add: fl left_diff_distrib)
  then have "\<bar>fl64 x - x\<bar> = \<bar>of_int (round_half_even (x / q)) - x / q\<bar> * \<bar>q\<bar>"
    by (simp only: abs_mult)
  also have "\<dots> = \<bar>of_int (round_half_even (x / q)) - x / q\<bar> * q"
    using qpos by simp
  also have "\<dots> \<le> 1 / 2 * q"
    using qpos round_half_even_error[of "x / q"] by (intro mult_right_mono) simp_all
  also have "\<dots> = 2 powr of_int e / 2 ^ 53"
  proof -
    have "of_int (e - 52) = (of_int e :: real) + of_int (- 52)" by simp
    then have "q = 2 powr of_int e * 2 powr of_int (- 52)"
      by (simp only: q_def powr_add)
    moreover have "(2::real) powr of_int (- 52) = 1 / 2 ^ 52"
      by (simp only: powr2_of_int) simp
    ultimately have "q = 2 powr of_int e / 2 ^ 52" by simp
    moreover have "(2::real) ^ 53 = 2 * 2 ^ 52" by simp
    ultimately show ?thesis by simp
  qed
  also have "\<dots> \<le> x / 2 ^ 53"
    using binade_bounds(1)[OF assms] by (simp only: e_def divide_right_mono zero_le_numeral zero_le_power)
  finally show ?thesis .
qed

lemma fl64_of_int_below:
  assumes "1 \<le> k" "k < 2 ^ 53"
  shows "fl64 (of_int k) = of_int k"
proof -
  define e where "e = \<lfloor>log 2 (of_int k)\<rfloor>"
  have kpos: "(0::real) < of_int k" using assms(1) by simp
  have "(2::real) powr of_int e \<le> of_int k" using binade_bounds(1)[OF kpos] by (simp only: e_def)
  also have "(of_int k :: real) < of_int (2 ^ 53)" using assms(2) by (simp only: of_int_less_iff)
  also have "(of_int (2 ^ 53) :: real) = 2 powr of_int 53" by (simp only: powr2_of_int) simp
  finally have "(2::real) powr of_int e < 2 powr of_int 53" .
  then have "(of_int e :: real) < of_int 53" using powr_less_cancel_iff[of 2 "of_int e" "of_int 53"] by simp
  then have e52: "e \<le> 52" by simp
  define n where "n = nat (52 - e)"
  have neg: "- (e - 52) = int n" "\<not> 0 \<le> e - 52 \<or> n = 0" using e52 by (simp_all add: n_def)
  have q: "2 powr of_int (e - 52) = 1 / (2::real) ^ n"
  proof (cases "e = 52")
    case True
    then show ?thesis using powr2_of_int[of 0] by (simp add: n_def)
  next
    case False
    then have "\<not> 0 \<le> e - 52" using e52 by simp
    moreover have "nat (- (e - 52)) = n" by (simp add: n_def)
    ultimately show ?thesis using powr2_of_int[of "e - 52"] by (simp only: if_False)
  qed
  have fl: "fl64 (of_int k) =
      of_int (round_half_even (of_int k / (2 powr of_int (e - 52)))) * (2 powr of_int (e - 52))"
    using kpos by (simp add: fl64_def Let_def e_def)
  have "of_int k / (1 / (2::real) ^ n) = of_int (k * 2 ^ n)" by simp
  then have "round_half_even (of_int k / (1 / 2 ^ n)) = k * 2 ^ n"
    by (simp only: round_half_even_of_int)
  then have "fl64 (of_int k) = of_int (k * 2 ^ n) * (1 / 2 ^ n)"
    by (simp only: fl q)
  then show ?thesis by simp
qed


lemma fl64_bounds:
  assumes "0 \<le> x"
  shows "(1 - 1 / 2 ^ 53) * x \<le> fl64 x" and "fl64 x \<le> (1 + 1 / 2 ^ 53) * x"
proof -
  have "\<bar>fl64 x - x\<bar> \<le> x / 2 ^ 53"
  proof (cases "x = 0")
    case True
    then show ?thesis by (simp add: fl64_zero)
  next
    case False
    then show ?thesis using assms by (intro fl64_relative_error) simp
  qed
  then have "x - x / 2 ^ 53 \<le> fl64 x" "fl64 x \<le> x + x / 2 ^ 53" by linarith+
  then show "(1 - 1 / 2 ^ 53) * x \<le> fl64 x" and "fl64 x \<le> (1 + 1 / 2 ^ 53) * x"
    by (simp_all add: algebra_simps)
qed

lemma fl64_between:
  assumes "0 \<le> lo" "0 \<le> p" "lo * p \<le> x" "x \<le> hi * p"
  shows "((1 - 1 / 2 ^ 53) * lo) * p \<le> fl64 x" and "fl64 x \<le> ((1 + 1 / 2 ^ 53) * hi) * p"
proof -
  have x0: "0 \<le> x" using assms(1,2,3) by (meson mult_nonneg_nonneg order_trans)
  have "(1 - 1 / 2 ^ 53) * (lo * p) \<le> (1 - 1 / 2 ^ 53) * x"
    using assms(3) by (intro mult_left_mono) simp_all
  also have "\<dots> \<le> fl64 x" by (rule fl64_bounds(1)[OF x0])
  finally show "((1 - 1 / 2 ^ 53) * lo) * p \<le> fl64 x" by (simp only: mult.assoc)
  have "fl64 x \<le> (1 + 1 / 2 ^ 53) * x" by (rule fl64_bounds(2)[OF x0])
  also have "\<dots> \<le> (1 + 1 / 2 ^ 53) * (hi * p)"
    using assms(4) by (intro mult_left_mono) simp_all
  finally show "fl64 x \<le> ((1 + 1 / 2 ^ 53) * hi) * p" by (simp only: mult.assoc)
qed

lemma three_roundings_low: "(1 - 4 / 2 ^ 53 :: real) \<le> (1 - 1 / 2 ^ 53) * ((1 - 1 / 2 ^ 53) * ((1 - 1 / 2 ^ 53) * 1))"
  by simp

lemma three_roundings_high: "(1 + 1 / 2 ^ 53) * ((1 + 1 / 2 ^ 53) * ((1 + 1 / 2 ^ 53) * 1)) \<le> (1 + 4 / 2 ^ 53 :: real)"
  by simp

lemma fl64_in_binade:
  assumes "0 < x" "2 powr of_int e \<le> x" "x < 2 powr of_int (e + 1)"
  shows "fl64 x = of_int (round_half_even (x / 2 powr of_int (e - 52))) * 2 powr of_int (e - 52)"
proof -
  have "\<lfloor>log 2 \<bar>x\<bar>\<rfloor> = e" using binade_unique[OF assms] assms(1) by simp
  then show ?thesis using assms(1) by (simp add: fl64_def Let_def)
qed

lemma fl64_2_53: "fl64 (2 ^ 53) = 2 ^ 53"
proof -
  have "fl64 (2 ^ 53) =
      of_int (round_half_even (2 ^ 53 / 2 powr of_int (53 - 52))) * 2 powr of_int (53 - 52)"
    by (rule fl64_in_binade) (simp_all add: powr2_of_int)
  also have "(2::real) powr of_int (53 - 52) = 2"
    using powr2_of_int[of 1] by simp
  also have "round_half_even (2 ^ 53 / 2) = 2 ^ 52"
    by (simp add: round_half_even_def Let_def)
  finally show ?thesis by simp
qed

lemma fl64_of_int:
  assumes "1 \<le> k" "k \<le> 2 ^ 53"
  shows "fl64 (of_int k) = of_int k"
proof (cases "k = 2 ^ 53")
  case True
  then show ?thesis using fl64_2_53 by simp
next
  case False
  then show ?thesis using assms by (intro fl64_of_int_below) simp_all
qed

subsection \<open>The error of a frame position\<close>

text \<open>
  A position is the result of three roundings: of the step, of the product with the
  table number and of the sum with the start. For sizes with
  \<open>(num_frames - 1) * (num_tables - 1) \<le> 2 ^ 50\<close> it differs from the exact position
  \<open>i * (num_frames - 1) / (num_tables - 1)\<close> by less than \<open>1 / (num_tables - 1)\<close>, so its
  floor is the floor of the exact position, or one less when the exact position is an
  integer.
\<close>

lemma position_error:
  fixes d m i :: int
  assumes "1 \<le> d" "1 \<le> i" "i \<le> m" "d * m \<le> 2 ^ 50"
  defines "p \<equiv> real_of_int (i * d) / real_of_int m"
  defines "y \<equiv> fl64 (fl64 (real_of_int i * fl64 (real_of_int d / real_of_int m)) + 0)"
  shows "0 < y" and "\<bar>y - p\<bar> < 1 / real_of_int m"
proof -
  have mpos: "0 < m" using assms(2,3) by simp
  define a where "a = real_of_int d / real_of_int m"
  have apos: "0 < a" using assms(1) mpos by (simp add: a_def)
  have pa: "p = real_of_int i * a" by (simp add: p_def a_def)
  have ppos: "0 < p" using apos assms(2) by (simp add: pa)
  let ?lo = "1 - 1 / 2 ^ 53 :: real" and ?hi = "1 + 1 / 2 ^ 53 :: real"
  define s where "s = fl64 a"
  have s: "?lo * a \<le> s" "s \<le> ?hi * a"
    using fl64_bounds[of a] apos by (simp_all add: s_def)
  define t where "t = real_of_int i * s"
  have ipos: "(0::real) \<le> real_of_int i" using assms(2) by simp
  have t: "(?lo * 1) * p \<le> t" "t \<le> (?hi * 1) * p"
  proof -
    have "real_of_int i * (?lo * a) \<le> real_of_int i * s"
      using s(1) ipos by (rule mult_left_mono)
    then show "(?lo * 1) * p \<le> t" by (simp add: pa t_def mult_ac)
    have "real_of_int i * s \<le> real_of_int i * (?hi * a)"
      using s(2) ipos by (rule mult_left_mono)
    then show "t \<le> (?hi * 1) * p" by (simp add: pa t_def mult_ac)
  qed
  define z where "z = fl64 t"
  have p0: "0 \<le> p" using ppos by simp
  have z: "(?lo * (?lo * 1)) * p \<le> z" "z \<le> (?hi * (?hi * 1)) * p"
    unfolding z_def using fl64_between[OF _ p0 t] by simp_all
  have yz: "y = fl64 z" by (simp add: y_def z_def t_def s_def a_def)
  have y: "(?lo * (?lo * (?lo * 1))) * p \<le> y" "y \<le> (?hi * (?hi * (?hi * 1))) * p"
    unfolding yz using fl64_between[OF _ p0 z] by simp_all
  have ylo: "(1 - 4 / 2 ^ 53) * p \<le> y"
  proof -
    have "(1 - 4 / 2 ^ 53) * p \<le> (?lo * (?lo * (?lo * 1))) * p"
      using three_roundings_low p0 by (rule mult_right_mono)
    then show ?thesis using y(1) by (rule order_trans)
  qed
  have yhi: "y \<le> (1 + 4 / 2 ^ 53) * p"
  proof -
    have "(?hi * (?hi * (?hi * 1))) * p \<le> (1 + 4 / 2 ^ 53) * p"
      using three_roundings_high p0 by (rule mult_right_mono)
    with y(2) show ?thesis by (rule order_trans)
  qed
  show "0 < y"
  proof -
    have "0 < (1 - 4 / 2 ^ 53) * p" using ppos by simp
    then show ?thesis using ylo by linarith
  qed
  have "p - 4 / 2 ^ 53 * p \<le> y" "y \<le> p + 4 / 2 ^ 53 * p"
    using ylo yhi by (simp_all only: left_diff_distrib distrib_right mult_1)
  then have err: "\<bar>y - p\<bar> \<le> 4 / 2 ^ 53 * p" by linarith
  have "p \<le> real_of_int d"
  proof -
    have "real_of_int i * real_of_int d \<le> real_of_int m * real_of_int d"
      using assms(1,3) by (intro mult_right_mono) simp_all
    then show ?thesis using mpos by (simp add: p_def divide_le_eq mult.commute)
  qed
  then have "4 / 2 ^ 53 * p \<le> 4 / 2 ^ 53 * real_of_int d"
    by (intro mult_left_mono) simp_all
  also have "\<dots> < 1 / real_of_int m"
  proof -
    have "real_of_int (d * m) \<le> real_of_int (2 ^ 50)" using assms(4) by (simp only: of_int_le_iff)
    then have "real_of_int d * real_of_int m \<le> 2 ^ 50" by simp
    then have "4 / 2 ^ 53 * (real_of_int d * real_of_int m) \<le> 4 / 2 ^ 53 * 2 ^ 50"
      by (intro mult_left_mono) simp_all
    also have "\<dots> < (1::real)" by simp
    finally have "4 / 2 ^ 53 * real_of_int d * real_of_int m < 1" by (simp only: mult.assoc)
    then show ?thesis using mpos by (simp add: pos_less_divide_eq)
  qed
  finally show "\<bar>y - p\<bar> < 1 / real_of_int m" using err by linarith
qed

lemma floor_near_ratio:
  fixes a m :: int and y :: real
  assumes "0 < m" "\<bar>y - real_of_int a / real_of_int m\<bar> < 1 / real_of_int m"
  shows "\<lfloor>y\<rfloor> = a div m \<or> (m dvd a \<and> \<lfloor>y\<rfloor> = a div m - 1)"
proof -
  define k where "k = a div m"
  define r where "r = a mod m"
  have a: "a = k * m + r" by (simp add: k_def r_def)
  have r: "0 \<le> r" "r < m" using assms(1) by (simp_all add: r_def)
  have mr: "(0::real) < real_of_int m" using assms(1) by simp
  have p: "real_of_int a / real_of_int m = real_of_int k + real_of_int r / real_of_int m"
    using mr by (simp add: a field_simps)
  have lo: "real_of_int k + real_of_int r / real_of_int m - 1 / real_of_int m < y"
    and hi: "y < real_of_int k + real_of_int r / real_of_int m + 1 / real_of_int m"
    using assms(2) unfolding p by linarith+
  show ?thesis
  proof (cases "r = 0")
    case True
    then have dv: "m dvd a" by (simp add: r_def mod_eq_0_iff_dvd)
    have "1 / real_of_int m \<le> 1" using assms(1) by simp
    then have "real_of_int k - 1 < y" "y < real_of_int k + 1" using lo hi True by simp_all
    then have "real_of_int (k - 1) \<le> y" "y < real_of_int (k - 1) + 2" by simp_all
    then have "\<lfloor>y\<rfloor> = k \<or> \<lfloor>y\<rfloor> = k - 1" by linarith
    then show ?thesis using dv by (auto simp: k_def)
  next
    case False
    then have r1: "1 \<le> r" using r(1) by simp
    have "(real_of_int r - 1) / real_of_int m \<ge> 0" using r1 mr by simp
    then have "real_of_int k \<le> real_of_int k + real_of_int r / real_of_int m - 1 / real_of_int m"
      by (simp add: diff_divide_distrib)
    then have l: "real_of_int k \<le> y" using lo by linarith
    have "r + 1 \<le> m" using r(2) by simp
    then have "real_of_int (r + 1) \<le> real_of_int m" by (simp only: of_int_le_iff)
    then have "(real_of_int r + 1) / real_of_int m \<le> 1" using mr by simp
    then have "real_of_int k + real_of_int r / real_of_int m + 1 / real_of_int m \<le> real_of_int k + 1"
      by (simp add: add_divide_distrib)
    then have h: "y < real_of_int k + 1" using hi by linarith
    have "\<lfloor>y\<rfloor> = k" using l h by linarith
    then show ?thesis by (simp add: k_def)
  qed
qed

subsection \<open>The positions computed by \<^verbatim>\<open>np.linspace\<close>\<close>

lemma fl64_of_nonneg_int:
  assumes "0 \<le> k" "k \<le> 2 ^ 53"
  shows "fl64 (real_of_int k) = real_of_int k"
proof (cases "k = 0")
  case True
  then show ?thesis by (simp add: fl64_zero)
next
  case False
  then show ?thesis using assms by (intro fl64_of_int) simp_all
qed

lemma fl64_of_nat:
  assumes "int i \<le> 2 ^ 53"
  shows "fl64 (real i) = real i"
  using fl64_of_nonneg_int[of "int i"] assms by simp

lemma fl64_pos: "0 < x \<Longrightarrow> 0 < fl64 x"
proof -
  assume x: "0 < x"
  have "0 < (1 - 1 / 2 ^ 53) * x" using x by simp
  also have "\<dots> \<le> fl64 x" using fl64_bounds(1)[of x] x by simp
  finally show ?thesis .
qed

lemma linspace_single: "np_linspace_int 0 d 1 = Inr [0]"
  by (simp add: np_linspace_int_def Let_def fl64_zero)

lemma replicate_update_same: "(replicate n x)[k := x] = replicate n x"
  by (metis list_update_id nth_replicate length_replicate list_update_beyond not_le_imp_less)

lemma linspace_zero_span:
  assumes "2 \<le> num"
  shows "np_linspace_int 0 0 num = Inr (replicate (nat num) 0)"
  using assms
  by (simp add: np_linspace_int_def Let_def fl64_zero map_replicate_const replicate_update_same)

lemma linspace_positive_span:
  assumes "1 \<le> d" "d \<le> 2 ^ 53" "2 \<le> num" "num - 1 \<le> 2 ^ 53"
  shows "np_linspace_int 0 d num =
     Inr (map floor ((map (\<lambda>i. fl64 (fl64 (real_of_int (int i)
                                   * fl64 (real_of_int d / real_of_int (num - 1))) + 0))
                        [0..<nat num])[nat num - 1 := real_of_int d]))"
proof -
  have dv: "fl64 (real_of_int (num - 1)) = real_of_int (num - 1)"
    using assms(3,4) by (intro fl64_of_nonneg_int) simp_all
  have stopf: "fl64 (real_of_int d) = real_of_int d"
    using assms(1,2) by (intro fl64_of_nonneg_int) simp_all
  have "0 < real_of_int d / real_of_int (num - 1)" using assms(1,3) by simp
  then have step: "fl64 (real_of_int d / real_of_int (num - 1)) \<noteq> 0"
    using fl64_pos by fastforce
  have arange: "fl64 (real i) = real_of_int (int i)" if "i \<in> set [0..<nat num]" for i
  proof -
    have "int i \<le> 2 ^ 53" using that assms(4) by simp
    then show ?thesis by (simp add: fl64_of_nat)
  qed
  have y: "map (\<lambda>i. fl64 (fl64 (fl64 (real i) * fl64 (real_of_int d / real_of_int (num - 1))) + 0))
             [0..<nat num]
         = map (\<lambda>i. fl64 (fl64 (real_of_int (int i) * fl64 (real_of_int d / real_of_int (num - 1))) + 0))
             [0..<nat num]"
    by (rule map_cong[OF refl]) (simp only: arange)
  have pos: "0 < num - 1" "1 < num" "\<not> num < 0" using assms(3) by simp_all
  show ?thesis
    unfolding np_linspace_int_def Let_def
    by (simp only: pos if_True if_False of_int_0 fl64_zero diff_zero stopf dv step y)
qed

lemma frame_indices_single: "frame_indices num_frames 1 = Inr [0]"
  by (simp add: frame_indices_def linspace_single)

lemma frame_indices_entries:
  fixes d m :: int
  assumes "1 \<le> d" "1 \<le> m" "d * m \<le> 2 ^ 50"
  shows "\<exists>g. frame_indices (d + 1) (m + 1) = Inr (map g [0..<nat (m + 1)]) \<and>
           g 0 = 0 \<and> g (nat m) = d \<and>
           (\<forall>i \<le> nat m. 0 \<le> g i \<and>
              (g i = (int i * d) div m \<or> (m dvd int i * d \<and> g i = (int i * d) div m - 1)))"
proof -
  have "d * 1 \<le> d * m" using assms(1,2) by (intro mult_left_mono) simp_all
  then have d53: "d \<le> 2 ^ 53" using assms(3) by simp
  have "1 * m \<le> d * m" using assms(1,2) by (intro mult_right_mono) simp_all
  then have m53: "m \<le> 2 ^ 53" using assms(3) by simp
  define s where "s = fl64 (real_of_int d / real_of_int m)"
  define Y where "Y = (\<lambda>i::nat. fl64 (fl64 (real_of_int (int i) * s) + 0))"
  define g where "g = (\<lambda>i::nat. if i = nat m then d else \<lfloor>Y i\<rfloor>)"
  have n: "nat (m + 1) = Suc (nat m)" using assms(2) by simp
  have run: "np_linspace_int 0 d (m + 1) =
      Inr (map floor ((map Y [0..<nat (m + 1)])[nat (m + 1) - 1 := real_of_int d]))"
    using linspace_positive_span[of d "m + 1"] assms(1,2) d53 m53 by (simp add: Y_def s_def)
  have "map floor ((map Y [0..<nat (m + 1)])[nat (m + 1) - 1 := real_of_int d])
          = map g [0..<nat (m + 1)]"
    by (rule nth_equalityI) (auto simp: n g_def nth_list_update nth_append less_Suc_eq)
  with run have res: "frame_indices (d + 1) (m + 1) = Inr (map g [0..<nat (m + 1)])"
    by (simp add: frame_indices_def)
  have Y0: "Y 0 = 0" by (simp add: Y_def fl64_zero)
  have g0: "g 0 = 0" using assms(2) by (simp add: g_def Y0)
  have gm: "g (nat m) = d" by (simp add: g_def)
  have each: "0 \<le> g i \<and>
      (g i = (int i * d) div m \<or> (m dvd int i * d \<and> g i = (int i * d) div m - 1))"
    if "i \<le> nat m" for i
  proof (cases "i = nat m")
    case True
    then have "int i = m" using assms(2) by simp
    then have "(int i * d) div m = d" using assms(2) by simp
    then show ?thesis using True assms(1) by (simp add: g_def)
  next
    case False
    show ?thesis
    proof (cases "i = 0")
      case True
      then show ?thesis using g0 by simp
    next
      case i0: False
      have i1: "1 \<le> int i" using i0 by simp
      have im: "int i \<le> m" using that assms(2) by linarith
      from position_error[OF assms(1) i1 im assms(3)]
      have ypos: "0 < Y i"
        and yerr: "\<bar>Y i - real_of_int (int i * d) / real_of_int m\<bar> < 1 / real_of_int m"
        by (simp_all add: Y_def s_def)
      have mpos: "0 < m" using assms(2) by simp
      from floor_near_ratio[OF mpos yerr]
      have "\<lfloor>Y i\<rfloor> = (int i * d) div m \<or> (m dvd int i * d \<and> \<lfloor>Y i\<rfloor> = (int i * d) div m - 1)" .
      moreover have "0 \<le> \<lfloor>Y i\<rfloor>" using ypos by simp
      ultimately show ?thesis using False by (simp add: g_def)
    qed
  qed
  from res g0 gm each show ?thesis by blast
qed

lemma frame_indices_floor:
  fixes num_frames num_tables :: int
  assumes "1 \<le> num_frames" "1 \<le> num_tables"
    and "(num_frames - 1) * (num_tables - 1) \<le> 2 ^ 50"
  shows "\<exists>idx. frame_indices num_frames num_tables = Inr idx \<and>
           length idx = nat num_tables \<and>
           (\<forall>i < nat num_tables.
              idx ! i = (if num_tables = 1 then 0
                         else \<lfloor>real i * real_of_int (num_frames - 1) / real_of_int (num_tables - 1)\<rfloor>)
              \<or> (2 \<le> num_tables \<and> (num_tables - 1) dvd int i * (num_frames - 1) \<and>
                  idx ! i =
                    \<lfloor>real i * real_of_int (num_frames - 1) / real_of_int (num_tables - 1)\<rfloor> - 1)) \<and>
           idx ! 0 = 0 \<and>
           (2 \<le> num_tables \<longrightarrow> last idx = num_frames - 1) \<and>
           (\<forall>j\<in>set idx. 0 \<le> j \<and> j \<le> num_frames - 1) \<and>
           sorted idx"
proof (cases "num_tables = 1")
  case True
  then show ?thesis using assms(1) by (simp add: frame_indices_single)
next
  case nt: False
  then have two: "2 \<le> num_tables" using assms(2) by simp
  show ?thesis
  proof (cases "num_frames = 1")
    case True
    have run: "frame_indices num_frames num_tables = Inr (replicate (nat num_tables) 0)"
      using True two by (simp add: frame_indices_def linspace_zero_span)
    have npos: "0 < nat num_tables" using two by simp
    have "last (replicate (nat num_tables) (0::int)) = 0" using npos by simp
    then show ?thesis using run True nt npos by (intro exI[of _ "replicate (nat num_tables) 0"]) simp
  next
    case False
    define d where "d = num_frames - 1"
    define m where "m = num_tables - 1"
    have d1: "1 \<le> d" using False assms(1) by (simp add: d_def)
    have m1: "1 \<le> m" using two by (simp add: m_def)
    have bound: "d * m \<le> 2 ^ 50" using assms(3) by (simp add: d_def m_def)
    have nf: "num_frames = d + 1" and ntm: "num_tables = m + 1" by (simp_all add: d_def m_def)
    from frame_indices_entries[OF d1 m1 bound] obtain g where
      run: "frame_indices num_frames num_tables = Inr (map g [0..<nat num_tables])"
      and g0: "g 0 = 0" and gm: "g (nat m) = d"
      and each: "\<forall>i \<le> nat m. 0 \<le> g i \<and>
              (g i = (int i * d) div m \<or> (m dvd int i * d \<and> g i = (int i * d) div m - 1))"
      unfolding nf ntm by blast
    let ?idx = "map g [0..<nat num_tables]"
    let ?K = "\<lambda>i::nat. (int i * d) div m"
    have n: "nat num_tables = Suc (nat m)" using m1 by (simp add: m_def)
    have mpos: "0 < m" using m1 by simp
    have nth: "?idx ! i = g i" if "i < nat num_tables" for i
      using that by (simp add: nth_map_upt)
    have le_m: "i \<le> nat m" if "i < nat num_tables" for i using that n by simp
    have fl: "\<lfloor>real i * real_of_int d / real_of_int m\<rfloor> = ?K i" for i
    proof -
      have "real i * real_of_int d / real_of_int m = real_of_int (int i * d) / real_of_int m"
        by simp
      then show ?thesis by (simp only: floor_divide_of_int_eq)
    qed
    have Kd: "?K i \<le> d" if "i \<le> nat m" for i
    proof -
      have "int i \<le> m" using that m1 by linarith
      then have "int i * d \<le> m * d" using d1 by (intro mult_right_mono) simp_all
      then have "?K i \<le> (m * d) div m" using mpos by (intro zdiv_mono1) simp_all
      then show ?thesis using mpos by simp
    qed
    have gle: "g i \<le> ?K i" if "i \<le> nat m" for i
      using each that by force
    have mono: "g i \<le> g j" if "i < j" "j \<le> nat m" for i j
    proof -
      have im: "i \<le> nat m" using that by simp
      have Kij: "?K i \<le> ?K j"
      proof -
        have "int i * d \<le> int j * d" using that(1) d1 by (intro mult_right_mono) simp_all
        then show ?thesis using mpos by (intro zdiv_mono1) simp_all
      qed
      from each that(2)
      consider "g j = ?K j" | "m dvd int j * d" "g j = ?K j - 1" by blast
      then show ?thesis
      proof cases
        case 1
        then show ?thesis using gle[OF im] Kij by simp
      next
        case 2
        have "?K i * m \<le> int i * d"
          using mpos by (metis div_mult_mod_eq le_add_same_cancel1 pos_mod_sign)
        also have "\<dots> < int j * d" using that(1) d1 by simp
        also have "\<dots> = ?K j * m" using 2(1) by simp
        finally have "?K i < ?K j" using mpos by simp
        then show ?thesis using gle[OF im] 2(2) by simp
      qed
    qed
    have srt: "sorted ?idx"
    proof -
      have "sorted_wrt (\<lambda>x y. g x \<le> g y) [0..<nat num_tables]"
      proof (rule sorted_wrt_mono_rel[OF _ sorted_wrt_upt])
        fix x y assume "x \<in> set [0..<nat num_tables]" "y \<in> set [0..<nat num_tables]" "x < y"
        then have "x < y" "y \<le> nat m" using n by auto
        then show "g x \<le> g y" by (rule mono)
      qed
      then show ?thesis by (simp only: sorted_map)
    qed
    have rng: "\<forall>j\<in>set ?idx. 0 \<le> j \<and> j \<le> num_frames - 1"
    proof
      fix j assume "j \<in> set ?idx"
      then obtain i where i: "i < nat num_tables" "j = g i" by auto
      then have im: "i \<le> nat m" using n by simp
      have "0 \<le> g i" using each im by blast
      moreover have "g i \<le> d" using gle[OF im] Kd[OF im] by simp
      ultimately show "0 \<le> j \<and> j \<le> num_frames - 1" using i(2) by (simp add: d_def)
    qed
    have lastv: "last ?idx = num_frames - 1"
    proof -
      have ne: "?idx \<noteq> []" using n by simp
      have lm: "length ?idx - 1 = nat m" using n by simp
      have "last ?idx = ?idx ! (length ?idx - 1)" using ne by (rule last_conv_nth)
      also have "\<dots> = ?idx ! nat m" by (simp only: lm)
      also have "\<dots> = g (nat m)" by (rule nth) (simp add: n)
      finally show ?thesis using gm by (simp add: d_def)
    qed
    have "?idx ! 0 = g 0" by (rule nth) (simp add: n)
    then have first: "?idx ! 0 = 0" using g0 by simp
    have nths: "\<forall>i < nat num_tables.
              ?idx ! i = (if num_tables = 1 then 0
                         else \<lfloor>real i * real_of_int (num_frames - 1) / real_of_int (num_tables - 1)\<rfloor>)
              \<or> (2 \<le> num_tables \<and> (num_tables - 1) dvd int i * (num_frames - 1) \<and>
                  ?idx ! i =
                    \<lfloor>real i * real_of_int (num_frames - 1) / real_of_int (num_tables - 1)\<rfloor> - 1)"
    proof (intro allI impI)
      fix i assume i: "i < nat num_tables"
      then have im: "i \<le> nat m" using n by simp
      have "g i = ?K i \<or> (m dvd int i * d \<and> g i = ?K i - 1)" using each im by blast
      then show "?idx ! i = (if num_tables = 1 then 0
                         else \<lfloor>real i * real_of_int (num_frames - 1) / real_of_int (num_tables - 1)\<rfloor>)
              \<or> (2 \<le> num_tables \<and> (num_tables - 1) dvd int i * (num_frames - 1) \<and>
                  ?idx ! i =
                    \<lfloor>real i * real_of_int (num_frames - 1) / real_of_int (num_tables - 1)\<rfloor> - 1)"
        unfolding nth[OF i] d_def[symmetric] m_def[symmetric] fl
        using nt two by (simp only: if_False simp_thms)
    qed
    have len: "length ?idx = nat num_tables" by simp
    show ?thesis using run len nths first lastv rng srt by blast
  qed
qed









subsection \<open>A position that float64 rounds below an integer\<close>

text \<open>
  With 154 frames and the default of 64 tables the exact position of table 21 is
  \<open>21 * 153 / 63 = 51\<close>. In float64 the step \<open>153 / 63\<close> is rounded down, the product is
  \<open>50.99999999999999\<close>, and frame 50 is selected.
\<close>

lemma step_example: "fl64 (153 / 63) = 5468656690378459 / 2 ^ 51"
proof -
  have "fl64 (153 / 63) =
      of_int (round_half_even ((153 / 63) / 2 powr of_int (1 - 52))) * 2 powr of_int (1 - 52)"
    by (rule fl64_in_binade) (simp_all add: powr2_of_int)
  also have "(2::real) powr of_int (1 - 52) = 1 / 2 ^ 51"
    using powr2_of_int[of "- 51"] by simp
  also have "round_half_even ((153 / 63) / (1 / 2 ^ 51)) = 5468656690378459"
    by (simp add: round_half_even_def Let_def)
  finally show ?thesis by simp
qed

lemma product_example: "fl64 (21 * (5468656690378459 / 2 ^ 51)) = 7177611906121727 / 2 ^ 47"
proof -
  have "fl64 (21 * (5468656690378459 / 2 ^ 51)) =
      of_int (round_half_even ((21 * (5468656690378459 / 2 ^ 51)) / 2 powr of_int (5 - 52)))
        * 2 powr of_int (5 - 52)"
    by (rule fl64_in_binade) (simp_all add: powr2_of_int)
  also have "(2::real) powr of_int (5 - 52) = 1 / 2 ^ 47"
    using powr2_of_int[of "- 47"] by simp
  also have "round_half_even ((21 * (5468656690378459 / 2 ^ 51)) / (1 / 2 ^ 47)) = 7177611906121727"
    by (simp add: round_half_even_def Let_def)
  finally show ?thesis by simp
qed

lemma sum_example: "fl64 (7177611906121727 / 2 ^ 47 + 0) = 7177611906121727 / 2 ^ 47"
proof -
  have "fl64 (7177611906121727 / 2 ^ 47) =
      of_int (round_half_even ((7177611906121727 / 2 ^ 47) / 2 powr of_int (5 - 52)))
        * 2 powr of_int (5 - 52)"
    by (rule fl64_in_binade) (simp_all add: powr2_of_int)
  also have "(2::real) powr of_int (5 - 52) = 1 / 2 ^ 47"
    using powr2_of_int[of "- 47"] by simp
  also have "round_half_even ((7177611906121727 / 2 ^ 47) / (1 / 2 ^ 47)) = 7177611906121727"
    by (simp add: round_half_even_def Let_def)
  finally show ?thesis by simp
qed

lemma default_tables_example:
  "ebind (frame_indices 154 64) (\<lambda>idx. Inr (idx ! 21)) = Inr 50"
proof -
  let ?Y = "\<lambda>i::nat. fl64 (fl64 (real_of_int (int i) * fl64 (real_of_int 153 / real_of_int (64 - 1))) + 0)"
  have run: "frame_indices 154 64 =
      Inr (map floor ((map ?Y [0..<nat 64])[nat 64 - 1 := real_of_int 153]))"
    unfolding frame_indices_def using linspace_positive_span[of 153 64] by simp
  have "(map floor ((map ?Y [0..<nat 64])[nat 64 - 1 := real_of_int 153])) ! 21 = \<lfloor>?Y 21\<rfloor>"
    by (simp add: nth_list_update nth_map_upt del: upt_Suc)
  also have "?Y 21 = 7177611906121727 / 2 ^ 47"
  proof -
    have a: "real_of_int 153 / real_of_int (64 - 1) = (153 / 63 :: real)" by simp
    have b: "real_of_int (int 21) = (21 :: real)" by simp
    have "?Y 21 = fl64 (fl64 (21 * fl64 (153 / 63)) + 0)" by (simp only: a b)
    also have "\<dots> = fl64 (fl64 (21 * (5468656690378459 / 2 ^ 51)) + 0)"
      by (simp only: step_example)
    also have "\<dots> = fl64 (7177611906121727 / 2 ^ 47 + 0)" by (simp only: product_example)
    also have "\<dots> = 7177611906121727 / 2 ^ 47" by (simp only: sum_example)
    finally show ?thesis .
  qed
  also have "\<lfloor>7177611906121727 / 2 ^ 47 :: real\<rfloor> = 50" by simp
  finally show ?thesis by (simp only: run ebind_def sum.case)
qed


subsection \<open>The loop of \<^verbatim>\<open>create_wavetable_stack\<close>\<close>

text \<open>
  The stack is built from the selected frames: for a well-formed matrix of non-negative
  magnitudes with at least one frame, at least one table, sizes within the bound of the
  frame sampler and an even positive \<open>wavetable_size\<close>, row \<open>i\<close> of the result is the reconstruction of the frame at the
  \<open>i\<close>-th selected index.
\<close>

lemma column_valid:
  assumes "0 \<le> j" "j < int (shape1 m)"
  shows "column m j = Inr (map (\<lambda>r. r ! nat j) (rows m))"
  using assms by (simp add: column_def Let_def)

lemma column_nonneg:
  assumes "wf_matrix m" "list_all (list_all (\<lambda>x. 0 \<le> x)) (rows m)" "0 \<le> j" "j < int (shape1 m)"
  shows "\<forall>x\<in>set (map (\<lambda>r. r ! nat j) (rows m)). 0 \<le> x"
proof
  fix x assume "x \<in> set (map (\<lambda>r. r ! nat j) (rows m))"
  then obtain r where r: "r \<in> set (rows m)" "x = r ! nat j" by auto
  then have "length r = shape1 m" using assms(1) by (simp add: wf_matrix_def list_all_iff)
  then have "r ! nat j \<in> set r" using assms(3,4) by (intro nth_mem) linarith
  moreover have "list_all (\<lambda>x. 0 \<le> x) r" using assms(2) r(1) by (simp add: list_all_iff)
  ultimately show "0 \<le> x" using r(2) by (simp add: list_all_iff)
qed

lemma frame_wavetable_ok:
  assumes "wf_matrix m" "list_all (list_all (\<lambda>x. 0 \<le> x)) (rows m)" "0 < ws" "even ws"
    and "0 \<le> j" "j < int (shape1 m)"
  shows "\<exists>w. frame_wavetable m ws j = Inr w \<and> length w = nat ws"
proof -
  from even_size_result[OF column_nonneg[OF assms(1,2,5,6)] assms(3,4)]
  obtain w where "create_wavetable_from_spectrum (map (\<lambda>r. r ! nat j) (rows m)) ws = Inr w"
    and "length w = nat ws" by blast
  then show ?thesis
    by (simp add: frame_wavetable_def column_valid[OF assms(5,6)] ebind_def)
qed

lemma stack_loop_step:
  "stack_loop m ws ((i, j) # rest) wts =
     ebind (frame_wavetable m ws j)
       (\<lambda>w. ebind (assign_row wts i w) (\<lambda>wts'. stack_loop m ws rest wts'))"
  by (cases "column m j") (simp_all add: frame_wavetable_def ebind_def)

lemma stack_loop_rows:
  assumes "wf_matrix m" "list_all (list_all (\<lambda>x. 0 \<le> x)) (rows m)" "0 < ws" "even ws"
    and idx: "\<forall>j\<in>set idx. 0 \<le> j \<and> j < int (shape1 m)"
  shows "length wts = length idx \<Longrightarrow> \<forall>r\<in>set wts. length r = nat ws \<Longrightarrow> k \<le> length idx \<Longrightarrow>
         \<exists>out. stack_loop m ws (zip [k..<length idx] (drop k idx)) wts = Inr out \<and>
               length out = length idx \<and>
               (\<forall>i<length idx. k \<le> i \<longrightarrow> frame_wavetable m ws (idx ! i) = Inr (out ! i)) \<and>
               (\<forall>i<k. out ! i = wts ! i)"
proof (induction "length idx - k" arbitrary: k wts)
  case 0
  then show ?case by simp
next
  case (Suc d)
  then have kN: "k < length idx" by simp
  let ?j = "idx ! k"
  have jin: "?j \<in> set idx" using kN by simp
  then have jv: "0 \<le> ?j" "?j < int (shape1 m)" using idx by simp_all
  from frame_wavetable_ok[OF assms(1-4) jv]
  obtain w where w: "frame_wavetable m ws ?j = Inr w" and lw: "length w = nat ws" by blast
  have upt: "[k..<length idx] = k # [Suc k..<length idx]" using kN by (simp add: upt_rec)
  have drp: "drop k idx = ?j # drop (Suc k) idx" using kN by (simp add: Cons_nth_drop_Suc)
  have "length (wts ! k) = nat ws" using Suc.prems(1,2) kN by simp
  then have asg: "assign_row wts k w = Inr (wts[k := w])"
    using kN Suc.prems(1) lw by (simp add: assign_row_def)
  have rows': "\<forall>r\<in>set (wts[k := w]). length r = nat ws"
    using Suc.prems(2) lw by (auto dest!: set_update_subset_insert[THEN subsetD])
  have "\<exists>out. stack_loop m ws (zip [Suc k..<length idx] (drop (Suc k) idx)) (wts[k := w]) = Inr out \<and>
               length out = length idx \<and>
               (\<forall>i<length idx. Suc k \<le> i \<longrightarrow> frame_wavetable m ws (idx ! i) = Inr (out ! i)) \<and>
               (\<forall>i<Suc k. out ! i = (wts[k := w]) ! i)"
    using Suc.hyps(2) Suc.prems(1) kN rows' by (intro Suc.hyps(1)) simp_all
  then obtain out where
    run': "stack_loop m ws (zip [Suc k..<length idx] (drop (Suc k) idx)) (wts[k := w]) = Inr out"
    and lo: "length out = length idx"
    and hi: "\<forall>i<length idx. Suc k \<le> i \<longrightarrow> frame_wavetable m ws (idx ! i) = Inr (out ! i)"
    and low: "\<forall>i<Suc k. out ! i = (wts[k := w]) ! i"
    by blast
  have run: "stack_loop m ws (zip [k..<length idx] (drop k idx)) wts = Inr out"
    by (simp only: upt drp zip_Cons_Cons stack_loop_step w asg ebind_def sum.case run')
  have outk: "out ! k = w" using low kN Suc.prems(1) by simp
  have hi': "\<forall>i<length idx. k \<le> i \<longrightarrow> frame_wavetable m ws (idx ! i) = Inr (out ! i)"
  proof (intro allI impI)
    fix i assume i: "i < length idx" "k \<le> i"
    show "frame_wavetable m ws (idx ! i) = Inr (out ! i)"
    proof (cases "i = k")
      case True
      then show ?thesis using w outk by simp
    next
      case False
      then have "Suc k \<le> i" using i(2) by simp
      then show ?thesis using hi i(1) by simp
    qed
  qed
  have low': "\<forall>i<k. out ! i = wts ! i" using low by simp
  from run lo hi' low' show ?case by blast
qed

lemma create_wavetable_stack_rows:
  assumes "wf_matrix m" "list_all (list_all (\<lambda>x. 0 \<le> x)) (rows m)" "0 < ws" "even ws"
    and "1 \<le> shape1 m" "1 \<le> num_tables"
    and "(int (shape1 m) - 1) * (num_tables - 1) \<le> 2 ^ 50"
  shows "\<exists>idx out. frame_indices (int (shape1 m)) num_tables = Inr idx \<and>
           create_wavetable_stack m num_tables ws = Inr out \<and>
           length out = nat num_tables \<and>
           (\<forall>i<nat num_tables. frame_wavetable m ws (idx ! i) = Inr (out ! i))"
proof -
  have nf: "1 \<le> int (shape1 m)" using assms(5) by simp
  from frame_indices_floor[OF nf assms(6,7)]
  obtain idx where fi: "frame_indices (int (shape1 m)) num_tables = Inr idx"
    and li: "length idx = nat num_tables"
    and rng: "\<forall>j\<in>set idx. 0 \<le> j \<and> j \<le> int (shape1 m) - 1"
    by blast
  have idx: "\<forall>j\<in>set idx. 0 \<le> j \<and> j < int (shape1 m)" using rng by auto
  let ?z = "replicate (nat num_tables) (replicate (nat ws) (0::real))"
  have z: "np_zeros2 num_tables ws = Inr ?z" using assms(3,6) by (simp add: np_zeros2_def)
  have "\<exists>out. stack_loop m ws (zip [0..<length idx] (drop 0 idx)) ?z = Inr out \<and>
               length out = length idx \<and>
               (\<forall>i<length idx. 0 \<le> i \<longrightarrow> frame_wavetable m ws (idx ! i) = Inr (out ! i)) \<and>
               (\<forall>i<0. out ! i = ?z ! i)"
    by (rule stack_loop_rows[OF assms(1-4) idx]) (simp_all add: li)
  then obtain out where "stack_loop m ws (zip [0..<length idx] idx) ?z = Inr out"
    and "length out = length idx"
    and "\<forall>i<length idx. frame_wavetable m ws (idx ! i) = Inr (out ! i)"
    by auto
  then show ?thesis using fi z li
    by (intro exI[of _ idx] exI[of _ out]) (simp add: create_wavetable_stack_def Let_def ebind_def)
qed

subsection \<open>Claims on the frame sampler\<close>







section \<open>Properties of the morph interpolator\<close>

lemma length_morph_row:
  "length w1 = length w2 \<or> length w2 = 1 \<Longrightarrow> length (morph_row w1 w2 alpha) = length w1"
  by (auto simp: morph_row_def blend_def)

lemma np_add_morph_row:
  assumes "length w1 = length w2 \<or> length w2 = 1"
  shows "np_add (map (\<lambda>x. (1 - alpha) * x) w1) (map (\<lambda>x. alpha * x) w2)
           = Inr (morph_row w1 w2 alpha)"
proof (cases "length w1 = length w2")
  case True
  have "map2 (+) (map (\<lambda>x. (1 - alpha) * x) w1) (map (\<lambda>x. alpha * x) w2)
          = map2 (\<lambda>a b. (1 - alpha) * a + alpha * b) w1 w2"
    by (auto simp: zip_map_map)
  then show ?thesis using True by (simp add: np_add_def morph_row_def blend_def)
next
  case False
  then have one: "length w2 = 1" using assms by simp
  then obtain b where b: "w2 = [b]" by (cases w2) simp_all
  show ?thesis using False b by (simp add: np_add_def morph_row_def)
qed

lemma assign_row_same_width:
  "i < length m \<Longrightarrow> length row = length (m ! i) \<Longrightarrow> assign_row m i row = Inr (m[i := row])"
  by (simp add: assign_row_def)

lemma morph_loop_rows:
  assumes "2 \<le> n" "length w1 = length w2 \<or> length w2 = 1"
  shows "length morphed = N \<Longrightarrow> \<forall>r\<in>set morphed. length r = length w1 \<Longrightarrow> k \<le> N \<Longrightarrow>
         morph_loop w1 w2 n [k..<N] morphed =
           Inr (take k morphed @
                map (\<lambda>i. morph_row w1 w2 (real i / real_of_int (n - 1))) [k..<N])"
proof (induction "N - k" arbitrary: k morphed)
  case 0
  then show ?case by simp
next
  case (Suc d)
  then have kN: "k < N" by simp
  let ?alpha = "real k / real_of_int (n - 1)"
  let ?row = "morph_row w1 w2 ?alpha"
  have upt: "[k..<N] = k # [Suc k..<N]" using kN by (simp add: upt_rec)
  have div: "py_truediv (int k) (n - 1) = Inr ?alpha"
    using assms(1) by (simp add: py_truediv_def)
  have lrow: "length ?row = length w1" by (rule length_morph_row[OF assms(2)])
  have "length (morphed ! k) = length w1" using Suc.prems(1,2) kN by simp
  then have asg: "assign_row morphed k ?row = Inr (morphed[k := ?row])"
    using kN Suc.prems(1) lrow by (intro assign_row_same_width) simp_all
  have rows': "\<forall>r\<in>set (morphed[k := ?row]). length r = length w1"
    using Suc.prems(2) lrow by (auto dest!: set_update_subset_insert[THEN subsetD])
  have IH: "morph_loop w1 w2 n [Suc k..<N] (morphed[k := ?row]) =
      Inr (take (Suc k) (morphed[k := ?row]) @
           map (\<lambda>i. morph_row w1 w2 (real i / real_of_int (n - 1))) [Suc k..<N])"
    using Suc.hyps(2) Suc.prems(1) kN rows' by (intro Suc.hyps(1)) simp_all
  have tk: "take (Suc k) (morphed[k := ?row]) = take k morphed @ [?row]"
    using kN Suc.prems(1) by (simp add: take_Suc_conv_app_nth)
  have "morph_loop w1 w2 n [k..<N] morphed = morph_loop w1 w2 n [Suc k..<N] (morphed[k := ?row])"
    by (simp only: upt morph_loop.simps div np_add_morph_row[OF assms(2)] asg ebind_def sum.case)
  also note IH
  finally show ?case by (simp only: tk upt list.map append_assoc append_Cons append_Nil)
qed

lemma morph_wavetables_rows:
  assumes "2 \<le> n" "length w1 = length w2 \<or> length w2 = 1"
  shows "morph_wavetables w1 w2 n =
           Inr (map (\<lambda>i. morph_row w1 w2 (real i / real_of_int (n - 1))) [0..<nat n])"
proof -
  have z: "np_zeros2 n (int (length w1)) = Inr (replicate (nat n) (replicate (length w1) 0))"
    using assms(1) by (simp add: np_zeros2_def)
  have "morph_loop w1 w2 n [0..<nat n] (replicate (nat n) (replicate (length w1) 0)) =
      Inr (take 0 (replicate (nat n) (replicate (length w1) 0)) @
           map (\<lambda>i. morph_row w1 w2 (real i / real_of_int (n - 1))) [0..<nat n])"
    by (rule morph_loop_rows[OF assms]) simp_all
  then show ?thesis by (simp add: morph_wavetables_def z ebind_def)
qed

lemma blend_first: "length A = length B \<Longrightarrow> blend 0 A B = A"
  by (induction A B rule: list_induct2) (simp_all add: blend_def)

lemma blend_last: "length A = length B \<Longrightarrow> blend 1 A B = B"
  by (induction A B rule: list_induct2) (simp_all add: blend_def)

lemma morph_single_step: "morph_wavetables w1 w2 1 = Inl ZeroDivisionError"
  by (simp add: morph_wavetables_def np_zeros2_def ebind_def py_truediv_def)

lemma morph_no_step: "morph_wavetables w1 w2 0 = Inr []"
  by (simp add: morph_wavetables_def np_zeros2_def ebind_def)

lemma morph_negative: "n < 0 \<Longrightarrow> morph_wavetables w1 w2 n = Inl ValueError_negative_dimensions"
  by (simp add: morph_wavetables_def np_zeros2_def ebind_def)

lemma morph_mismatch:
  assumes "2 \<le> n" "length w1 \<noteq> length w2" "length w2 \<noteq> 1"
  shows "morph_wavetables w1 w2 n = Inl ValueError_broadcast"
proof -
  have z: "np_zeros2 n (int (length w1)) = Inr (replicate (nat n) (replicate (length w1) 0))"
    using assms(1) by (simp add: np_zeros2_def)
  have upt: "[0..<nat n] = 0 # [Suc 0..<nat n]" using assms(1) by (simp add: upt_rec)
  have div: "py_truediv (int 0) (n - 1) = Inr 0" using assms(1) by (simp add: py_truediv_def)
  have "ebind (np_add (map (\<lambda>x. (1 - 0) * x) w1) (map (\<lambda>x. 0 * x) w2))
          (\<lambda>row. ebind (assign_row (replicate (nat n) (replicate (length w1) 0)) 0 row) f)
        = Inl ValueError_broadcast" for f
    using assms by (auto simp: np_add_def assign_row_def ebind_def)
  then show ?thesis
    by (simp only: morph_wavetables_def z upt morph_loop.simps div ebind_def sum.case)
qed

text \<open>
  Claim C6. For two wavetables \<open>A\<close> and \<open>B\<close> of equal length and \<open>num_steps \<ge> 2\<close> the call
  returns \<open>num_steps\<close> wavetables, step \<open>i\<close> being the blend \<open>(1 - alpha) * A + alpha * B\<close>
  with \<open>alpha = i / (num_steps - 1)\<close>; the first one is \<open>A\<close> itself and the last one is
  \<open>B\<close> itself.
\<close>

theorem morph_linear_blend:
  assumes "length A = length B" and "2 \<le> num_steps"
  shows "\<exists>morphed. morph_wavetables A B num_steps = Inr morphed \<and>
           length morphed = nat num_steps \<and>
           (\<forall>i < nat num_steps.
              morphed ! i = blend (real i / real_of_int (num_steps - 1)) A B) \<and>
           morphed ! 0 = A \<and> morphed ! (nat num_steps - 1) = B"
proof -
  let ?row = "\<lambda>i::nat. blend (real i / real_of_int (num_steps - 1)) A B"
  let ?m = "map ?row [0..<nat num_steps]"
  have "morph_row A B alpha = blend alpha A B" for alpha
    using assms(1) by (simp add: morph_row_def)
  then have run: "morph_wavetables A B num_steps = Inr ?m"
    using morph_wavetables_rows[OF assms(2), of A B] assms(1) by simp
  have nth: "?m ! i = ?row i" if "i < nat num_steps" for i
    using that by (simp add: nth_map_upt)
  have "?m ! 0 = ?row 0" using assms(2) by (intro nth) simp
  then have first: "?m ! 0 = A" using blend_first[OF assms(1)] by simp
  have k: "nat num_steps - 1 < nat num_steps" using assms(2) by simp
  have "real (nat num_steps - 1) = real_of_int (num_steps - 1)"
    using assms(2) by (simp add: of_nat_diff)
  then have "real (nat num_steps - 1) / real_of_int (num_steps - 1) = 1"
    using assms(2) by simp
  then have "?row (nat num_steps - 1) = B" using blend_last[OF assms(1)] by (simp only:)
  then have lastv: "?m ! (nat num_steps - 1) = B" using nth[OF k] by (simp only:)
  have len: "length ?m = nat num_steps" by simp
  from run len nth first lastv show ?thesis by blast
qed

theorem morph_linear_blend_witness:
  "length [1, 2 :: real] = length [3, 4 :: real] \<and> (2 :: int) \<le> 4 \<and>
   ebind (morph_wavetables [1, 2] [3, 4] 4) (\<lambda>morphed. Inr (morphed ! 0, morphed ! 3))
     = Inr ([1, 2], [3, 4])"
proof -
  have len: "length [1, 2 :: real] = length [3, 4 :: real]" by simp
  have steps: "(2 :: int) \<le> 4" by simp
  from morph_linear_blend[OF len steps]
  obtain morphed where "morph_wavetables [1, 2] [3, 4] 4 = Inr morphed"
    and "morphed ! 0 = [1, 2]" and "morphed ! (nat 4 - 1) = [3, 4]"
    by blast
  then show ?thesis by (simp add: ebind_def)
qed

text \<open>
  Claim C7, as amended. The code has no checks of its own; what raises is numpy and
  Python. A negative \<open>num_steps\<close> raises when the result array is allocated, and
  \<open>num_steps = 1\<close> raises \<^verbatim>\<open>ZeroDivisionError\<close> in the computation of \<open>alpha\<close>. With
  \<open>num_steps = 0\<close> the loop body never runs and an empty stack is returned without an
  error. For \<open>num_steps \<ge> 2\<close>, tables of unequal length raise unless the second table has
  length one, which numpy broadcasts; equal lengths never raise and give \<open>num_steps\<close>
  wavetables.
\<close>

theorem morph_failures:
  "(num_steps < 0 \<longrightarrow>
      morph_wavetables wavetable1 wavetable2 num_steps = Inl ValueError_negative_dimensions) \<and>
   (num_steps = 0 \<longrightarrow> morph_wavetables wavetable1 wavetable2 num_steps = Inr []) \<and>
   (num_steps = 1 \<longrightarrow> morph_wavetables wavetable1 wavetable2 num_steps = Inl ZeroDivisionError) \<and>
   (2 \<le> num_steps \<and> length wavetable1 \<noteq> length wavetable2 \<and> length wavetable2 \<noteq> 1 \<longrightarrow>
      morph_wavetables wavetable1 wavetable2 num_steps = Inl ValueError_broadcast) \<and>
   (2 \<le> num_steps \<and> (length wavetable1 = length wavetable2 \<or> length wavetable2 = 1) \<longrightarrow>
      ebind (morph_wavetables wavetable1 wavetable2 num_steps) (\<lambda>morphed. Inr (length morphed))
        = Inr (nat num_steps))"
proof (intro conjI impI)
  assume "num_steps < 0"
  then show "morph_wavetables wavetable1 wavetable2 num_steps = Inl ValueError_negative_dimensions"
    by (rule morph_negative)
next
  assume "num_steps = 0"
  then show "morph_wavetables wavetable1 wavetable2 num_steps = Inr []"
    by (simp only: morph_no_step)
next
  assume "num_steps = 1"
  then show "morph_wavetables wavetable1 wavetable2 num_steps = Inl ZeroDivisionError"
    by (simp only: morph_single_step)
next
  assume "2 \<le> num_steps \<and> length wavetable1 \<noteq> length wavetable2 \<and> length wavetable2 \<noteq> 1"
  then show "morph_wavetables wavetable1 wavetable2 num_steps = Inl ValueError_broadcast"
    by (intro morph_mismatch) simp_all
next
  assume a: "2 \<le> num_steps \<and> (length wavetable1 = length wavetable2 \<or> length wavetable2 = 1)"
  then have "morph_wavetables wavetable1 wavetable2 num_steps =
      Inr (map (\<lambda>i. morph_row wavetable1 wavetable2 (real i / real_of_int (num_steps - 1)))
             [0..<nat num_steps])"
    by (intro morph_wavetables_rows) simp_all
  then show "ebind (morph_wavetables wavetable1 wavetable2 num_steps)
      (\<lambda>morphed. Inr (length morphed)) = Inr (nat num_steps)"
    by (simp add: ebind_def)
qed

theorem morph_failures_witness:
  "morph_wavetables [1, 2] [3, 4] (-1) = Inl ValueError_negative_dimensions \<and>
   morph_wavetables [1, 2] [3, 4] 0 = Inr [] \<and>
   morph_wavetables [1, 2] [3, 4] 1 = Inl ZeroDivisionError \<and>
   morph_wavetables [1] [3, 4] 2 = Inl ValueError_broadcast \<and>
   ebind (morph_wavetables [1, 2] [3] 2) (\<lambda>morphed. Inr (length morphed)) = Inr 2"
  using morph_failures[of "-1" "[1, 2]" "[3, 4]"] morph_failures[of 0 "[1, 2]" "[3, 4]"]
    morph_failures[of 1 "[1, 2]" "[3, 4]"] morph_failures[of 2 "[1]" "[3, 4]"]
    morph_failures[of 2 "[1, 2]" "[3]"]
  by simp

text \<open>
  Claim C7 as stated fails: the tables \<open>[1, 2]\<close> and \<open>[3]\<close> have unequal lengths and are
  morphed without an error, and \<open>num_steps = 0\<close> is below two and returns an empty stack
  without an error.
\<close>

theorem morph_failures_counterexample:
  "morph_wavetables [1, 2] [3] 2 = Inr [[1, 2], [3, 3]] \<and>
   morph_wavetables [1, 2] [3, 4] 0 = Inr []"
  by code_simp

section \<open>Properties of the serializers\<close>





lemma endswith_append: "endswith (s @ suffix) suffix"
  by (simp add: endswith_def)

lemma scaled_peak:
  fixes w :: "real list"
  assumes "x \<in> set w" "x \<noteq> 0" "0 < c"
  defines "p \<equiv> Max (abs ` set w)"
  shows "0 < p \<and> np_max (map abs w) = Inr p \<and>
         np_max (map abs (map (\<lambda>x. x * c) (map (\<lambda>x. x / p) w))) = Inr c"
proof -
  have ne: "w \<noteq> []" using assms(1) by auto
  have "\<bar>x\<bar> \<le> p" unfolding p_def using assms(1) by (intro Max_ge) auto
  with assms(2) have ppos: "0 < p" by simp
  have pin: "p \<in> abs ` set w" unfolding p_def using ne by (intro Max_in) auto
  have ple: "y \<le> p" if "y \<in> abs ` set w" for y unfolding p_def using that by (intro Max_ge) auto
  let ?w' = "map (\<lambda>x. x * c) (map (\<lambda>x. x / p) w)"
  have "Max (set (map abs ?w')) = c"
  proof (rule Max_eqI)
    show "finite (set (map abs ?w'))" by simp
  next
    fix y assume "y \<in> set (map abs ?w')"
    then obtain z where z: "z \<in> set w" "y = \<bar>z / p * c\<bar>" by auto
    then have "\<bar>z\<bar> \<le> p" using ple by auto
    then have "\<bar>z\<bar> / p \<le> 1" using ppos by simp
    then have "\<bar>z\<bar> / p * c \<le> 1 * c" using assms(3) by (intro mult_right_mono) simp_all
    moreover have "y = \<bar>z\<bar> / p * c" using z(2) ppos assms(3) by (simp add: abs_mult)
    ultimately show "y \<le> c" by simp
  next
    from pin obtain z where z: "z \<in> set w" "p = \<bar>z\<bar>" by auto
    then have "\<bar>z / p * c\<bar> = c" using ppos assms(3) by (simp add: abs_mult)
    then have "c \<in> (\<lambda>x. \<bar>x / p * c\<bar>) ` set w" using z(1) by (metis image_eqI)
    then show "c \<in> set (map abs ?w')" by (simp add: image_image)
  qed
  moreover have "np_max (map abs w) = Inr p" using ne by (simp add: np_max_Max p_def)
  ultimately show ?thesis using ne ppos by (simp add: np_max_Max)
qed

lemma flatten_reshaped:
  "flatten (case wavetable of Array1 w \<Rightarrow> Array2 [w] | Array2 ws \<Rightarrow> Array2 ws)
     = flat_samples wavetable"
  by (cases wavetable) (simp_all add: flat_samples_def)

lemma save_wavetable_flat:
  "save_wavetable self wavetable output_path format fs =
     (case ebind (np_max (map abs (flat_samples wavetable)))
                (\<lambda>peak. if peak > 0
                         then ebind (np_divide (flat_samples wavetable) peak)
                                (\<lambda>q. Inr (map (\<lambda>x. x * (9 / 10)) q))
                         else Inr (flat_samples wavetable)) of
           Inl e \<Rightarrow> (Inl e, fs)
         | Inr scaled \<Rightarrow>
             (Inr (), fs(output_path \<mapsto> AudioFile scaled (sr self) format)))"
  by (simp only: save_wavetable_def Let_def flatten_reshaped)

text \<open>
  Claim C8. A format outside \<open>json, csv, npz, txt\<close> raises and leaves the file system as
  it was: no file is written. A format of the set returns the output path, which ends
  with a dot followed by the format name, after the writer of that format has written
  the features to that path.
\<close>

theorem save_features_dispatch:
  "(format \<notin> {''json'', ''csv'', ''npz'', ''txt''} \<longrightarrow>
      save_features path_str features output_path format fs
        = (Inl (ValueError_unsupported format), fs)) \<and>
   (format \<in> {''json'', ''csv'', ''npz'', ''txt''} \<longrightarrow>
      (\<exists>p. endswith p (''.'' @ format) \<and>
           save_features path_str features output_path format fs =
             (Inr p,
              if format = ''json'' then to_json features p fs
              else if format = ''csv'' then to_csv features p True fs
              else if format = ''npz'' then to_npz features p fs
              else to_txt features p fs)))"
proof (intro conjI impI)
  assume "format \<notin> {''json'', ''csv'', ''npz'', ''txt''}"
  then show "save_features path_str features output_path format fs
        = (Inl (ValueError_unsupported format), fs)"
    by (simp add: save_features_def Let_def)
next
  assume fmt: "format \<in> {''json'', ''csv'', ''npz'', ''txt''}"
  define p where "p = (if \<not> endswith (path_str output_path) (''.'' @ format)
                       then path_str output_path @ ''.'' @ format else path_str output_path)"
  have e: "endswith p (''.'' @ format)"
  proof (cases "endswith (path_str output_path) (''.'' @ format)")
    case True
    then show ?thesis by (simp add: p_def)
  next
    case False
    then have "p = path_str output_path @ (''.'' @ format)" by (simp add: p_def)
    then show ?thesis by (simp only: endswith_append)
  qed
  have "save_features path_str features output_path format fs =
             (Inr p,
              if format = ''json'' then to_json features p fs
              else if format = ''csv'' then to_csv features p True fs
              else if format = ''npz'' then to_npz features p fs
              else to_txt features p fs)"
  proof -
    from fmt consider "format = ''json''" | "format = ''csv''" | "format = ''npz''"
      | "format = ''txt''" by blast
    then show ?thesis
    proof cases
      case 1 then show ?thesis by (simp add: save_features_def Let_def p_def)
    next
      case 2 then show ?thesis by (simp add: save_features_def Let_def p_def)
    next
      case 3 then show ?thesis by (simp add: save_features_def Let_def p_def)
    next
      case 4 then show ?thesis by (simp add: save_features_def Let_def p_def)
    qed
  qed
  with e show "\<exists>p. endswith p (''.'' @ format) \<and>
           save_features path_str features output_path format fs =
             (Inr p,
              if format = ''json'' then to_json features p fs
              else if format = ''csv'' then to_csv features p True fs
              else if format = ''npz'' then to_npz features p fs
              else to_txt features p fs)" by blast
qed

theorem save_features_dispatch_witness:
  "save_features id [] ''out'' ''xml'' Map.empty = (Inl (ValueError_unsupported ''xml''), Map.empty) \<and>
   ebind (fst (save_features id [] ''out'' ''json'' Map.empty))
     (\<lambda>p. Inr (endswith p ''.json'')) = Inr True"
proof -
  have bad: "''xml'' \<notin> {''json'', ''csv'', ''npz'', ''txt''}" by simp
  have good: "''json'' \<in> {''json'', ''csv'', ''npz'', ''txt''}" by simp
  from save_features_dispatch[of "''xml''" id "[]" "''out''" Map.empty] bad
  have a: "save_features id [] ''out'' ''xml'' Map.empty
             = (Inl (ValueError_unsupported ''xml''), Map.empty)"
    by blast
  from save_features_dispatch[of "''json''" id "[]" "''out''" Map.empty] good
  obtain p where "endswith p (''.'' @ ''json'')"
    and "fst (save_features id [] ''out'' ''json'' Map.empty) = Inr p"
    by fastforce
  then have "ebind (fst (save_features id [] ''out'' ''json'' Map.empty))
     (\<lambda>p. Inr (endswith p ''.json'')) = Inr True"
    by (simp add: ebind_def)
  with a show ?thesis by (rule conjI)
qed

text \<open>
  Claim C9, as amended. A one-dimensional input is treated as a stack of one table and
  the stack is flattened by concatenating its tables in order. For an input with at
  least one sample the flattened sequence is written multiplied by a positive factor:
  when some sample is non-zero the peak absolute amplitude of what is written is exactly
  0.9; when every sample is zero the rescaling is skipped and the written sequence is
  silent, with peak 0.
\<close>

theorem save_wavetable_rescales:
  assumes "flat_samples wavetable \<noteq> []"
  shows "\<exists>scaled c. 0 < c \<and> scaled = map (\<lambda>x. x * c) (flat_samples wavetable) \<and>
           save_wavetable self wavetable output_path format fs =
             (Inr (), fs(output_path \<mapsto> AudioFile scaled (sr self) format)) \<and>
           np_max (map abs scaled) =
             Inr (if \<exists>x\<in>set (flat_samples wavetable). x \<noteq> 0 then 9 / 10 else 0)"
proof (cases "\<exists>x\<in>set (flat_samples wavetable). x \<noteq> 0")
  case True
  then obtain x where x: "x \<in> set (flat_samples wavetable)" "x \<noteq> 0" by blast
  let ?f = "flat_samples wavetable"
  define p where "p = Max (abs ` set ?f)"
  from scaled_peak[OF x, of "9 / 10"]
  have ppos: "0 < p" and mx: "np_max (map abs ?f) = Inr p"
    and pk: "np_max (map abs (map (\<lambda>x. x * (9 / 10)) (map (\<lambda>x. x / p) ?f))) = Inr (9 / 10)"
    by (simp_all add: p_def)
  let ?scaled = "map (\<lambda>x. x * (9 / 10)) (map (\<lambda>x. x / p) ?f)"
  have run: "save_wavetable self wavetable output_path format fs =
      (Inr (), fs(output_path \<mapsto> AudioFile ?scaled (sr self) format))"
    using ppos by (simp add: save_wavetable_flat mx ebind_def np_divide_def)
  have sc: "?scaled = map (\<lambda>x. x * (9 / 10 / p)) ?f" by simp
  have cpos: "0 < 9 / 10 / p" using ppos by simp
  from cpos sc run pk True show ?thesis
    by (intro exI[of _ ?scaled] exI[of _ "9 / 10 / p"]) (simp only: if_True simp_thms)
next
  case False
  let ?f = "flat_samples wavetable"
  have "set ?f \<subseteq> {0}" using False by blast
  then have "set ?f = {} \<or> set ?f = {0}" by (rule subset_singletonD)
  then have "set ?f = {0}" using assms by simp
  then have mx0: "Max (set (map abs ?f)) = 0" by simp
  then have mx: "np_max (map abs ?f) = Inr 0" using assms by (simp add: np_max_Max)
  have run: "save_wavetable self wavetable output_path format fs =
      (Inr (), fs(output_path \<mapsto> AudioFile ?f (sr self) format))"
    by (simp add: save_wavetable_flat mx ebind_def)
  have sc: "?f = map (\<lambda>x. x * 1) ?f" by simp
  have "(0::real) < 1" by simp
  with sc run mx False show ?thesis
    by (intro exI[of _ ?f] exI[of _ 1]) (simp only: if_False simp_thms)
qed

theorem save_wavetable_rescales_witness:
  "flat_samples (Array2 [[1, -2], [1]]) \<noteq> [] \<and>
   fst (save_wavetable \<lparr>sr = 44100\<rparr> (Array2 [[1, -2], [1]]) ''o.wav'' ''wav'' Map.empty)
     = Inr ()"
proof -
  have ne: "flat_samples (Array2 [[1, -2], [1]]) \<noteq> []" by (simp add: flat_samples_def)
  from save_wavetable_rescales[OF ne, of "\<lparr>sr = 44100\<rparr>" "''o.wav''" "''wav''" Map.empty]
  have "fst (save_wavetable \<lparr>sr = 44100\<rparr> (Array2 [[1, -2], [1]]) ''o.wav'' ''wav'' Map.empty)
     = Inr ()"
    by fastforce
  with ne show ?thesis by (rule conjI)
qed

text \<open>
  Claim C9 as stated fails: for the silent table \<open>[0, 0]\<close> the guard on the peak skips
  the rescaling, the sequence \<open>[0, 0]\<close> is written as it is, and its peak is 0, not 0.9.
\<close>

theorem save_wavetable_silent_counterexample:
  "snd (save_wavetable \<lparr>sr = 44100\<rparr> (Array1 [0, 0]) ''o.wav'' ''wav'' Map.empty) ''o.wav''
     = Some (AudioFile [0, 0] 44100 ''wav'') \<and>
   np_max (map abs [0, 0 :: real]) = Inr 0"
  by (simp add: save_wavetable_def ebind_def Let_def)


end
